theory Spec2Isabelle
  imports Main "HOL-Library.Word"
begin

unbundle bit_operations_syntax

section \<open>Shared data: byte slices, errors, channels, frames\<close>

text \<open>
  A Go \<^verbatim>\<open>[]byte\<close> is a list of bytes; where the source tells the nil slice from an
  empty one (\<^verbatim>\<open>data == nil\<close>), the slice is an option and \<open>None\<close> is nil.
\<close>

type_synonym byte = "8 word"

text \<open>
  Go errors. \<^verbatim>\<open>io.EOF\<close> is one fixed value, compared with \<^verbatim>\<open>==\<close>;
  \<^verbatim>\<open>ErrAuthenticateFailed\<close> is an error type, looked for with \<^verbatim>\<open>errors.As\<close>;
  \<^verbatim>\<open>errors.New(msg)\<close> is \<open>ErrorString msg\<close>; an error that wraps another one
  (\<^verbatim>\<open>Unwrap\<close>) is \<open>Wrapped\<close>. A nil error is \<open>None\<close> of \<open>error option\<close>.
\<close>

datatype error =
    EOF
  | ErrAuthenticateFailed string
  | ErrorString string
  | Wrapped string error

text \<open>\<^verbatim>\<open>errors.As(err, new(ErrAuthenticateFailed))\<close>: walks the chain of wrapped errors.\<close>

fun errors_As_ErrAuthenticateFailed :: "error \<Rightarrow> bool" where
  "errors_As_ErrAuthenticateFailed EOF = False"
| "errors_As_ErrAuthenticateFailed (ErrAuthenticateFailed reason) = True"
| "errors_As_ErrAuthenticateFailed (ErrorString msg) = False"
| "errors_As_ErrAuthenticateFailed (Wrapped msg e) = errors_As_ErrAuthenticateFailed e"

text \<open>
  A Go channel: \<^verbatim>\<open>make(chan T)\<close> has capacity 0, \<^verbatim>\<open>make(chan T, n)\<close> capacity n.
  A send proceeds when a receiver is waiting (the value is handed over) or when the buffer
  has room (the value is queued); otherwise it cannot proceed now. Whether a receiver is
  waiting is not the sender's state, so it is an argument.
\<close>

record 'a chan =
  capacity :: nat
  queue :: "'a list"
  handed :: "'a list"

definition make_chan :: "nat \<Rightarrow> 'a chan" where
  "make_chan n = \<lparr>capacity = n, queue = [], handed = []\<rparr>"

definition try_send :: "'a chan \<Rightarrow> bool \<Rightarrow> 'a \<Rightarrow> 'a chan option" where
  "try_send ch receiving x =
     (if receiving \<and> queue ch = [] then Some (ch\<lparr>handed := handed ch @ [x]\<rparr>)
      else if length (queue ch) < capacity ch then Some (ch\<lparr>queue := queue ch @ [x]\<rparr>)
      else None)"

text \<open>
  A blocking send \<^verbatim>\<open>ch <- x\<close> waits until the send can proceed. \<open>receiving t\<close> tells
  whether a receiver waits at moment \<open>t\<close>; a send that never proceeds never returns
  (\<open>None\<close>).
\<close>

partial_function (option) send_blocking ::
  "'a chan \<Rightarrow> (nat \<Rightarrow> bool) \<Rightarrow> nat \<Rightarrow> 'a \<Rightarrow> 'a chan option" where
  "send_blocking ch receiving t x =
     (case try_send ch (receiving t) x of
        Some ch' \<Rightarrow> Some ch'
      | None \<Rightarrow> send_blocking ch receiving (Suc t) x)"

text \<open>Frames (core/frame): only what the modelled functions touch.\<close>

record DataFrame =
  Tag :: "32 word"
  Metadata :: "byte list option"
  Payload :: "byte list option"
  Streamed :: bool

datatype Frame =
    IsDataFrame DataFrame
  | IsBackflowFrame "32 word" "byte list option"
  | IsOtherFrame byte

section \<open>core/client.go\<close>

datatype ClientType = ClientTypeSource | ClientTypeUpstreamZipper | ClientTypeStreamFunction

record clientOptions =
  observeDataTags :: "32 word list"
  connectUntilSucceed :: bool
  nonBlockWrite :: bool
  credential :: "string option"

text \<open>
  Modelled from the spec: \<^verbatim>\<open>defaultClientOption\<close> is not among the sources; the spec
  gives the defaults \<^verbatim>\<open>connectUntilSucceed\<close> false and \<^verbatim>\<open>nonBlockWrite\<close> false, no
  tags and no credential.
\<close>

definition defaultClientOption :: clientOptions where
  "defaultClientOption =
     \<lparr>observeDataTags = [], connectUntilSucceed = False, nonBlockWrite = False,
      credential = None\<rparr>"

text \<open>
  Modelled from the spec: the option setters are not among the sources; each sets the one
  field of the options that the spec's enumeration of the engine configuration names.
\<close>

definition WithConnectUntilSucceed :: "clientOptions \<Rightarrow> clientOptions" where
  "WithConnectUntilSucceed o' = o'\<lparr>connectUntilSucceed := True\<rparr>"

definition WithNonBlockWriteFrame :: "clientOptions \<Rightarrow> clientOptions" where
  "WithNonBlockWriteFrame o' = o'\<lparr>nonBlockWrite := True\<rparr>"

definition WithObserveDataTags :: "32 word list \<Rightarrow> clientOptions \<Rightarrow> clientOptions" where
  "WithObserveDataTags tags o' = o'\<lparr>observeDataTags := tags\<rparr>"

datatype ClientControlStream = ControlStream nat

text \<open>
  The client. \<open>logger\<close> holds the messages logged so far, \<open>errorfn_calls\<close> the errors
  handed to the installed error handler, \<open>ctxCancelled\<close> whether \<^verbatim>\<open>c.ctx\<close> is done.
  \<open>dials\<close> counts the calls of \<^verbatim>\<open>openControlStream\<close>, \<open>slept\<close> the seconds spent in
  \<^verbatim>\<open>time.Sleep(time.Second)\<close>, \<open>background\<close> the control streams that
  \<^verbatim>\<open>runBackground\<close> was started on.
\<close>

record Client =
  name :: string
  clientID :: string
  clientType :: ClientType
  opts :: clientOptions
  logger :: "string list"
  errorfn_calls :: "error list"
  ctxCancelled :: bool
  writeFrameChan :: "Frame chan"
  controlStream :: "ClientControlStream option"
  dials :: nat
  slept :: nat
  background :: "ClientControlStream option list"

text \<open>
  \<^verbatim>\<open>NewClient\<close>: the options are functions applied in order to the default options;
  \<open>newID\<close> is what \<^verbatim>\<open>id.New()\<close> returns.
\<close>

definition NewClient ::
  "string \<Rightarrow> ClientType \<Rightarrow> (clientOptions \<Rightarrow> clientOptions) list \<Rightarrow> string \<Rightarrow> Client" where
  "NewClient appName ctype os newID =
     (let option = fold (\<lambda>o' acc. o' acc) os defaultClientOption in
      \<lparr>name = appName, clientID = newID, clientType = ctype, opts = option,
       logger = (if credential option \<noteq> None then [''use credential''] else []),
       errorfn_calls = [], ctxCancelled = False,
       writeFrameChan = make_chan 0,
       controlStream = None, dials = 0, slept = 0, background = []\<rparr>)"

text \<open>
  One call of \<^verbatim>\<open>openControlStream\<close> meets what the network and the server do:
  \<open>opened\<close> is the result of \<^verbatim>\<open>OpenClientControlStream\<close> (the stream, nil on failure,
  and the error), \<open>authenticated\<close> the result of \<^verbatim>\<open>Authenticate\<close>.
\<close>

record attempt =
  opened :: "ClientControlStream option \<times> error option"
  authenticated :: "error option"

definition openControlStream :: "attempt \<Rightarrow> ClientControlStream option \<times> error option" where
  "openControlStream a =
     (case opened a of
        (cs, Some err) \<Rightarrow> (cs, Some err)
      | (cs, None) \<Rightarrow>
          (case authenticated a of
             Some err \<Rightarrow> (cs, Some err)
           | None \<Rightarrow> (cs, None)))"

text \<open>
  The condition under which \<^verbatim>\<open>Connect\<close> loops once \<^verbatim>\<open>connectUntilSucceed\<close> is set:
  the attempt fails and \<^verbatim>\<open>errors.As\<close> does not find \<^verbatim>\<open>ErrAuthenticateFailed\<close>.
\<close>

definition retryable :: "attempt \<Rightarrow> bool" where
  "retryable a =
     (case openControlStream a of
        (cs, Some err) \<Rightarrow> \<not> errors_As_ErrAuthenticateFailed err
      | (cs, None) \<Rightarrow> False)"

text \<open>Attempts used in examples: the dial fails, the server refuses the credential, all is well.\<close>

definition dial_fails :: attempt where
  "dial_fails = \<lparr>opened = (None, Some (ErrorString ''timeout: no recent network activity'')),
                 authenticated = None\<rparr>"

definition auth_fails :: attempt where
  "auth_fails = \<lparr>opened = (Some (ControlStream 0), None),
                 authenticated = Some (ErrAuthenticateFailed ''authentication failed'')\<rparr>"

definition dial_succeeds :: attempt where
  "dial_succeeds = \<lparr>opened = (Some (ControlStream 0), None), authenticated = None\<rparr>"

text \<open>
  The body of \<^verbatim>\<open>Connect\<close> from the label \<^verbatim>\<open>connect:\<close> on; \<open>env i\<close> is what the
  \<open>i\<close>-th call of \<^verbatim>\<open>openControlStream\<close> meets. The \<^verbatim>\<open>goto connect\<close> is the recursive
  call; a run that never leaves the loop is \<open>None\<close>.
\<close>

partial_function (option) connect_from ::
  "(nat \<Rightarrow> attempt) \<Rightarrow> nat \<Rightarrow> Client \<Rightarrow> (error option \<times> Client) option" where
  "connect_from env i c =
     (case openControlStream (env i) of
        (cs, Some err) \<Rightarrow>
          if connectUntilSucceed (opts c) \<and> \<not> errors_As_ErrAuthenticateFailed err
          then connect_from env (Suc i)
                 (c\<lparr>dials := Suc (dials c),
                    logger := logger c @ [''failed to connect to zipper, trying to reconnect''],
                    slept := Suc (slept c)\<rparr>)
          else Some (Some err,
                 c\<lparr>dials := Suc (dials c),
                   logger := logger c @ [''can not connect to zipper'']\<rparr>)
      | (cs, None) \<Rightarrow>
          Some (None,
            c\<lparr>dials := Suc (dials c),
              logger := logger c @ [''connected to zipper''],
              controlStream := cs,
              background := background c @ [cs]\<rparr>))"

definition Connect :: "(nat \<Rightarrow> attempt) \<Rightarrow> Client \<Rightarrow> (error option \<times> Client) option" where
  "Connect env c =
     (if clientType c = ClientTypeStreamFunction \<and> length (observeDataTags (opts c)) = 0
      then Some (Some (ErrorString
             ''yomo: streamFunction cannot observe data because the required tag has not been set''), c)
      else connect_from env 0 c)"

text \<open>\<^verbatim>\<open>blockWriteFrame\<close>, \<^verbatim>\<open>nonBlockWriteFrame\<close> and \<^verbatim>\<open>WriteFrame\<close>.\<close>

definition blockWriteFrame ::
  "(nat \<Rightarrow> bool) \<Rightarrow> Frame \<Rightarrow> Client \<Rightarrow> (error option \<times> Client) option" where
  "blockWriteFrame receiving f c =
     (case send_blocking (writeFrameChan c) receiving 0 f of
        None \<Rightarrow> None
      | Some ch \<Rightarrow> Some (None, c\<lparr>writeFrameChan := ch\<rparr>))"

definition nonBlockWriteFrame :: "(nat \<Rightarrow> bool) \<Rightarrow> Frame \<Rightarrow> Client \<Rightarrow> error option \<times> Client" where
  "nonBlockWriteFrame receiving f c =
     (case try_send (writeFrameChan c) (receiving 0) f of
        Some ch \<Rightarrow> (None, c\<lparr>writeFrameChan := ch\<rparr>)
      | None \<Rightarrow>
          (Some (ErrorString ''yomo: client has lost connection''),
           c\<lparr>logger := logger c @ [''failed to write frame'']\<rparr>))"

definition WriteFrame ::
  "(nat \<Rightarrow> bool) \<Rightarrow> Frame \<Rightarrow> Client \<Rightarrow> (error option \<times> Client) option" where
  "WriteFrame receiving f c =
     (if nonBlockWrite (opts c) then Some (nonBlockWriteFrame receiving f c)
      else blockWriteFrame receiving f c)"

text \<open>
  \<^verbatim>\<open>handleFrameError\<close>. The reconnection channel is the caller's; \<open>receiving\<close> tells
  whether \<^verbatim>\<open>runBackground\<close> waits on it now. The \<^verbatim>\<open>select\<close> with a \<^verbatim>\<open>default\<close>
  branch sends only when the send can proceed at once.
\<close>

definition handleFrameError ::
  "error option \<Rightarrow> unit chan \<Rightarrow> bool \<Rightarrow> Client \<Rightarrow> Client \<times> unit chan" where
  "handleFrameError err reconnection receiving c =
     (case err of
        None \<Rightarrow> (c, reconnection)
      | Some e \<Rightarrow>
          (let c1 = c\<lparr>errorfn_calls := errorfn_calls c @ [e]\<rparr> in
           if e = EOF then (c1\<lparr>ctxCancelled := True\<rparr>, reconnection)
           else (case try_send reconnection receiving () of
                   Some ch \<Rightarrow> (c1, ch)
                 | None \<Rightarrow> (c1, reconnection))))"

text \<open>\<^verbatim>\<open>Client.Write\<close>: the count, the error and the client afterwards.\<close>

definition Write :: "byte list option \<Rightarrow> Client \<Rightarrow> (int \<times> error option) \<times> Client" where
  "Write p c = ((0, None), c)"

section \<open>serverless context\<close>

text \<open>
  A \<^verbatim>\<open>frame.Writer\<close>: \<open>writes\<close> are the frames \<^verbatim>\<open>WriteFrame\<close> was called with,
  \<open>answer\<close> is the error the writer returns for a frame.
\<close>

record FrameWriter =
  writes :: "Frame list"
  answer :: "Frame \<Rightarrow> error option"

definition writer_WriteFrame :: "FrameWriter \<Rightarrow> Frame \<Rightarrow> error option \<times> FrameWriter" where
  "writer_WriteFrame w f = (answer w f, w\<lparr>writes := writes w @ [f]\<rparr>)"

record Context =
  writer :: FrameWriter
  dataFrame :: DataFrame

definition NewContext :: "FrameWriter \<Rightarrow> DataFrame \<Rightarrow> Context" where
  "NewContext w df = \<lparr>writer = w, dataFrame = df\<rparr>"

text \<open>\<^verbatim>\<open>Context.Write\<close>: the fields the composite literal leaves out are zero.\<close>

definition Context_Write :: "Context \<Rightarrow> 32 word \<Rightarrow> byte list option \<Rightarrow> error option \<times> Context" where
  "Context_Write c tag data =
     (case data of
        None \<Rightarrow> (None, c)
      | Some d \<Rightarrow>
          (let df = \<lparr>Tag = tag, Metadata = Metadata (dataFrame c), Payload = Some d,
                     Streamed = False\<rparr>;
               (err, w) = writer_WriteFrame (writer c) (IsDataFrame df)
           in (err, c\<lparr>writer := w\<rparr>)))"

section \<open>The broker\<close>

text \<open>
  Connections, readers and writers are opaque in the source; the model keeps what the
  broker can see of them. A connection has its \<^verbatim>\<open>ID()\<close> and an identity (two
  connections may share an ID). A reader is known by its identity, a writer by the
  connection whose \<^verbatim>\<open>OpenUniStream\<close> returned it.
\<close>

datatype UniStreamConnection = Conn (conn_ID: string) (conn_ref: nat)

datatype ReadCloser = Reader nat

datatype Writer = UniStream UniStreamConnection

datatype taggedReader = TaggedReader (reader_tag: string) (reader_r: ReadCloser)

datatype taggedConnection = TaggedConnection (observer_tag: string) (observer_conn: UniStreamConnection)

text \<open>
  What one iteration of the supervisor's loop meets outside the broker: the connections
  whose \<^verbatim>\<open>OpenUniStream\<close> fails now, and the order in which \<^verbatim>\<open>range\<close> visits the
  keys of a map (Go leaves that order open).
\<close>

record env =
  refuses :: "UniStreamConnection list"
  order :: "string list"

definition OpenUniStream :: "env \<Rightarrow> UniStreamConnection \<Rightarrow> error + Writer" where
  "OpenUniStream e c =
     (if c \<in> set (refuses e) then Inl (ErrorString ''open stream failed'') else Inr (UniStream c))"

text \<open>
  The local variables of \<^verbatim>\<open>Broker.run\<close> and what the loop does to the world:
  \<open>copying\<close> lists the tasks started with \<^verbatim>\<open>go b.copyWithLog(tag, dst, src)\<close> (a
  multi-writer is the list of its writers), \<open>closed_readers\<close> the readers closed,
  \<open>logged\<close> the messages, \<open>returned\<close> whether \<^verbatim>\<open>run\<close> has returned.
\<close>

record Broker =
  observers :: "string \<rightharpoonup> (string \<rightharpoonup> UniStreamConnection)"
  readers :: "string \<rightharpoonup> ReadCloser"
  copying :: "(string \<times> Writer list \<times> ReadCloser) list"
  closed_readers :: "ReadCloser list"
  logged :: "string list"
  returned :: bool

definition NewBroker :: Broker where
  "NewBroker = \<lparr>observers = Map.empty, readers = Map.empty, copying = [],
                closed_readers = [], logged = [], returned = False\<rparr>"

text \<open>
  \<^verbatim>\<open>for _, opener := range vv\<close>: the keys are visited in the given order; a key whose
  entry is gone is not produced; a failing \<^verbatim>\<open>OpenUniStream\<close> deletes the opener's entry
  and breaks the loop. \<^verbatim>\<open>vv\<close> is the map stored in \<^verbatim>\<open>observers\<close>, so the deletions are
  seen there.
\<close>

fun range_openers ::
  "env \<Rightarrow> string list \<Rightarrow> (string \<rightharpoonup> UniStreamConnection) \<Rightarrow> Writer list \<Rightarrow> string list \<Rightarrow>
   (string \<rightharpoonup> UniStreamConnection) \<times> Writer list \<times> string list" where
  "range_openers e [] vv ws lg = (vv, ws, lg)"
| "range_openers e (k # ks) vv ws lg =
     (case vv k of
        None \<Rightarrow> range_openers e ks vv ws lg
      | Some opener \<Rightarrow>
          (case OpenUniStream e opener of
             Inl err \<Rightarrow>
               (vv(conn_ID opener := None), ws, lg @ [''failed to accept a uniStream''])
           | Inr w \<Rightarrow> range_openers e ks (vv(conn_ID opener := None)) (ws @ [w]) lg))"

text \<open>\<^verbatim>\<open>case o := <-b.observerChan\<close>\<close>

definition observer_arrives :: "env \<Rightarrow> taggedConnection \<Rightarrow> Broker \<Rightarrow> Broker" where
  "observer_arrives e ob b =
     (case readers b (observer_tag ob) of
        Some r \<Rightarrow>
          (case OpenUniStream e (observer_conn ob) of
             Inl err \<Rightarrow> b\<lparr>logged := logged b @ [''failed to accept a uniStream'']\<rparr>
           | Inr w \<Rightarrow> b\<lparr>copying := copying b @ [(observer_tag ob, [w], r)]\<rparr>)
      | None \<Rightarrow>
          (case observers b (observer_tag ob) of
             None \<Rightarrow>
               b\<lparr>observers := (observers b)(observer_tag ob \<mapsto>
                    [conn_ID (observer_conn ob) \<mapsto> observer_conn ob])\<rparr>
           | Some m \<Rightarrow>
               b\<lparr>observers := (observers b)(observer_tag ob \<mapsto>
                    m(conn_ID (observer_conn ob) \<mapsto> observer_conn ob))\<rparr>))"

text \<open>\<^verbatim>\<open>case r := <-b.readerChan\<close>\<close>

definition reader_arrives :: "env \<Rightarrow> taggedReader \<Rightarrow> Broker \<Rightarrow> Broker" where
  "reader_arrives e rd b =
     (case observers b (reader_tag rd) of
        None \<Rightarrow>
          (case readers b (reader_tag rd) of
             None \<Rightarrow> b\<lparr>readers := (readers b)(reader_tag rd \<mapsto> reader_r rd)\<rparr>
           | Some old \<Rightarrow>
               b\<lparr>closed_readers := closed_readers b @ [reader_r rd],
                 logged := logged b @ [''duplicate writer, close current writer'']\<rparr>)
      | Some vv \<Rightarrow>
          (case range_openers e (order e) vv [] (logged b) of
             (vv', ws, lg) \<Rightarrow>
               b\<lparr>observers := (observers b)(reader_tag rd \<mapsto> vv'),
                 logged := lg,
                 copying := copying b @ [(reader_tag rd, ws, reader_r rd)]\<rparr>))"

text \<open>The \<^verbatim>\<open>select\<close> of \<^verbatim>\<open>Broker.run\<close>: which case fires, and one turn of the loop.\<close>

datatype event =
    CtxDone
  | FromObserverChan taggedConnection
  | FromReaderChan taggedReader
  | FromReadEOFChan string

definition run_step :: "Broker \<Rightarrow> event \<times> env \<Rightarrow> Broker" where
  "run_step b ev =
     (if returned b then b
      else (case fst ev of
              CtxDone \<Rightarrow> b\<lparr>logged := logged b @ [''broker is closed''], returned := True\<rparr>
            | FromObserverChan ob \<Rightarrow> observer_arrives (snd ev) ob b
            | FromReaderChan rd \<Rightarrow> reader_arrives (snd ev) rd b
            | FromReadEOFChan tag \<Rightarrow> b\<lparr>readers := (readers b)(tag := None)\<rparr>))"

definition Broker_run :: "(event \<times> env) list \<Rightarrow> Broker" where
  "Broker_run evs = foldl run_step NewBroker evs"

text \<open>An iteration in which no \<^verbatim>\<open>OpenUniStream\<close> fails and no map is ranged over.\<close>

definition quiet :: env where
  "quiet = \<lparr>refuses = [], order = []\<rparr>"

text \<open>The connections parked for a tag: none when the tag has no entry or an empty one.\<close>

definition parked_observers :: "Broker \<Rightarrow> string \<Rightarrow> UniStreamConnection set" where
  "parked_observers b t = (case observers b t of None \<Rightarrow> {} | Some m \<Rightarrow> ran m)"

text \<open>
  \<^verbatim>\<open>io.Copy\<close> of Go's standard library, as its generic loop is written (neither side
  offers \<^verbatim>\<open>WriterTo\<close> or \<^verbatim>\<open>ReaderFrom\<close>). The source is the list of the results of
  its \<^verbatim>\<open>Read\<close> calls, each the bytes read and the error; once the list is used up the
  reader blocks for good and the copy does not return. The destination answers a
  \<^verbatim>\<open>Write\<close> with the count written and an error. An \<^verbatim>\<open>io.EOF\<close> from \<^verbatim>\<open>Read\<close> ends
  the loop and is not reported: a copy that reaches the end of the stream returns nil.
\<close>

definition errInvalidWrite :: error where
  "errInvalidWrite = ErrorString ''invalid write result''"

definition ErrShortWrite :: error where
  "ErrShortWrite = ErrorString ''short write''"

fun io_Copy ::
  "(byte list \<Rightarrow> int \<times> error option) \<Rightarrow> (byte list \<times> error option) list \<Rightarrow> int \<Rightarrow>
   (int \<times> error option) option" where
  "io_Copy dst [] written = None"
| "io_Copy dst ((p, er) # rest) written =
     (let nr = int (length p) in
      if 0 < nr then
        (case dst p of
           (nw0, ew0) \<Rightarrow>
             (let invalid = (nw0 < 0 \<or> nr < nw0);
                  nw = (if invalid then 0 else nw0);
                  ew = (if invalid \<and> ew0 = None then Some errInvalidWrite else ew0);
                  written' = written + nw
              in if ew \<noteq> None then Some (written', ew)
                 else if nr \<noteq> nw then Some (written', Some ErrShortWrite)
                 else (case er of
                         Some e \<Rightarrow> Some (written', if e = EOF then None else Some e)
                       | None \<Rightarrow> io_Copy dst rest written')))
      else (case er of
              Some e \<Rightarrow> Some (written, if e = EOF then None else Some e)
            | None \<Rightarrow> io_Copy dst rest written))"

text \<open>A destination that takes every byte it is given.\<close>

definition write_all :: "byte list \<Rightarrow> int \<times> error option" where
  "write_all p = (int (length p), None)"

text \<open>
  \<^verbatim>\<open>copyWithLog\<close>: the tags it sends on \<^verbatim>\<open>readEOFChan\<close> and the messages it logs;
  \<open>None\<close> when the copy does not return.
\<close>

definition copyWithLog ::
  "string \<Rightarrow> (byte list \<Rightarrow> int \<times> error option) \<Rightarrow> (byte list \<times> error option) list \<Rightarrow>
   (string list \<times> string list) option" where
  "copyWithLog tag dst src =
     (case io_Copy dst src 0 of
        None \<Rightarrow> None
      | Some (n, err) \<Rightarrow>
          (case err of
             None \<Rightarrow> Some ([], [])
           | Some e \<Rightarrow>
               if e = EOF
               then Some ([tag], [''writing to all observers has been completed.''])
               else Some ([], [''failed to write a uniStream''])))"

text \<open>
  A copy task ends and the supervisor takes from \<^verbatim>\<open>readEOFChan\<close> what the task sent
  there.
\<close>

definition after_copy ::
  "Broker \<Rightarrow> (string list \<times> string list) option \<Rightarrow> Broker" where
  "after_copy b res =
     (case res of
        None \<Rightarrow> b
      | Some (sent, msgs) \<Rightarrow>
          foldl run_step (b\<lparr>logged := logged b @ msgs\<rparr>)
            (map (\<lambda>tag. (FromReadEOFChan tag, \<lparr>refuses = [], order = []\<rparr>)) sent))"

section \<open>pkg/frame-codec/y3codec/stream_frame.go\<close>

text \<open>
  \<^verbatim>\<open>frame.StreamFrame\<close>. \<^verbatim>\<open>ChunkSize\<close> is a Go \<^verbatim>\<open>uint\<close> (the source converts it with
  \<^verbatim>\<open>uint32(f.ChunkSize)\<close> and assigns \<^verbatim>\<open>uint(chunkSize)\<close> to it), 64 bits wide on the
  64-bit platforms the model is about; \<^verbatim>\<open>StreamID\<close> is an \<^verbatim>\<open>int64\<close>. A Go string is a
  sequence of bytes, as is a HOL string.
\<close>

record StreamFrame =
  ID :: string
  StreamID :: "64 word"
  ChunkSize :: "64 word"

definition tagStreamClientID :: byte where "tagStreamClientID = 0x01"
definition tagStreamID :: byte where "tagStreamID = 0x02"
definition tagStreamChunkSize :: byte where "tagStreamChunkSize = 0x03"

text \<open>
  The Y3 library (github.com/yomorun/y3) is a dependency, not part of the sources. The
  codec functions take it as an argument: the value setters of a primitive packet encoder
  (each gives the value bytes), the encoding of a node packet from its type byte and its
  primitive packets in the order added, the decoding of a node packet to its map of
  primitive packets, and the readers of a primitive packet's value.
\<close>

record Y3 =
  SetStringValue :: "string \<Rightarrow> byte list"
  SetInt64Value :: "64 word \<Rightarrow> byte list"
  SetUInt32Value :: "32 word \<Rightarrow> byte list"
  NodeEncode :: "byte \<Rightarrow> (byte \<times> byte list) list \<Rightarrow> byte list"
  DecodeToNodePacket :: "byte list \<Rightarrow> error + (byte \<rightharpoonup> byte list)"
  ToUTF8String :: "byte list \<Rightarrow> error + string"
  ToInt64 :: "byte list \<Rightarrow> error + 64 word"
  ToInt32 :: "byte list \<Rightarrow> error + 32 word"

text \<open>
  \<^verbatim>\<open>encodeStreamFrame\<close>; \<open>ty\<close> is \<^verbatim>\<open>byte(f.Type())\<close>. The error it returns is
  always nil. \<^verbatim>\<open>uint32(f.ChunkSize)\<close> keeps the low 32 bits.
\<close>

definition encodeStreamFrame :: "Y3 \<Rightarrow> byte \<Rightarrow> StreamFrame \<Rightarrow> byte list" where
  "encodeStreamFrame y ty f =
     (let id' = SetStringValue y (ID f);
          streamID = SetInt64Value y (StreamID f);
          chunkSize = SetUInt32Value y (ucast (ChunkSize f))
      in NodeEncode y ty
           [(tagStreamClientID, id'), (tagStreamID, streamID), (tagStreamChunkSize, chunkSize)])"

text \<open>
  \<^verbatim>\<open>decodeStreamFrame\<close> writes into the frame it is given and returns at the first
  error, so the model returns the error with the frame as far as it was filled. Each of
  the three blocks is skipped when the packet is absent. \<^verbatim>\<open>uint(chunkSize)\<close> converts
  an \<^verbatim>\<open>int32\<close>: the sign is extended.
\<close>

definition decode_id :: "Y3 \<Rightarrow> (byte \<rightharpoonup> byte list) \<Rightarrow> StreamFrame \<Rightarrow> error option \<times> StreamFrame" where
  "decode_id y packets f =
     (case packets tagStreamClientID of
        None \<Rightarrow> (None, f)
      | Some p \<Rightarrow>
          (case ToUTF8String y p of
             Inl err \<Rightarrow> (Some err, f)
           | Inr id' \<Rightarrow> (None, f\<lparr>ID := id'\<rparr>)))"

definition decode_stream_id :: "Y3 \<Rightarrow> (byte \<rightharpoonup> byte list) \<Rightarrow> StreamFrame \<Rightarrow> error option \<times> StreamFrame" where
  "decode_stream_id y packets f =
     (case packets tagStreamID of
        None \<Rightarrow> (None, f)
      | Some p \<Rightarrow>
          (case ToInt64 y p of
             Inl err \<Rightarrow> (Some err, f)
           | Inr steamID \<Rightarrow> (None, f\<lparr>StreamID := steamID\<rparr>)))"

definition decode_chunk_size :: "Y3 \<Rightarrow> (byte \<rightharpoonup> byte list) \<Rightarrow> StreamFrame \<Rightarrow> error option \<times> StreamFrame" where
  "decode_chunk_size y packets f =
     (case packets tagStreamChunkSize of
        None \<Rightarrow> (None, f)
      | Some p \<Rightarrow>
          (case ToInt32 y p of
             Inl err \<Rightarrow> (Some err, f)
           | Inr chunkSize \<Rightarrow> (None, f\<lparr>ChunkSize := scast chunkSize\<rparr>)))"

definition decodeStreamFrame :: "Y3 \<Rightarrow> byte list \<Rightarrow> StreamFrame \<Rightarrow> error option \<times> StreamFrame" where
  "decodeStreamFrame y data f =
     (case DecodeToNodePacket y data of
        Inl err \<Rightarrow> (Some err, f)
      | Inr nodeBlock \<Rightarrow>
          (case decode_id y nodeBlock f of
             (Some err, f1) \<Rightarrow> (Some err, f1)
           | (None, f1) \<Rightarrow>
               (case decode_stream_id y nodeBlock f1 of
                  (Some err, f2) \<Rightarrow> (Some err, f2)
                | (None, f2) \<Rightarrow> decode_chunk_size y nodeBlock f2)))"

text \<open>The frame a caller decodes into: \<^verbatim>\<open>new(frame.StreamFrame)\<close>, all fields zero.\<close>

definition new_StreamFrame :: StreamFrame where
  "new_StreamFrame = \<lparr>ID = [], StreamID = 0, ChunkSize = 0\<rparr>"

subsection \<open>A Y3 library\<close>

text \<open>
  Modelled from the spec: the Y3 library is not among the sources. This instance follows
  the wire format of the spec's data model: a node packet is a header byte (the type, with
  the node flag \<open>0x80\<close>), the size of its body and the body, a concatenation of primitive
  packets; a primitive packet is a one-byte tag, the size of its value as a base-128
  varint and the value; an integer value is big-endian two's complement in the fewest
  bytes; the decoder indexes the primitive packets by tag. It makes the codec functions
  executable; the properties below that name no library hold for every library.
\<close>

text \<open>Integer values: the fewest bytes that keep the sign, most significant byte first.\<close>

fun sizeOfNVarInt_down :: "int \<Rightarrow> int \<Rightarrow> nat \<Rightarrow> nat" where
  "sizeOfNVarInt_down v lead 0 = 1"
| "sizeOfNVarInt_down v lead (Suc n) =
     (if v div 2 ^ (8 * Suc n - 1) \<noteq> lead then Suc (Suc n) else sizeOfNVarInt_down v lead n)"

definition sizeOfNVarInt :: "int \<Rightarrow> nat \<Rightarrow> nat" where
  "sizeOfNVarInt v width = sizeOfNVarInt_down v (v div 2 ^ (width - 1)) (width div 8 - 1)"

definition encodeNVarInt :: "int \<Rightarrow> nat \<Rightarrow> byte list" where
  "encodeNVarInt v n = map (\<lambda>k. word_of_int (v div 2 ^ (8 * k))) (rev [0..<n])"

definition decodeNVarInt :: "byte list \<Rightarrow> int option" where
  "decodeNVarInt buf =
     (case buf of
        [] \<Rightarrow> None
      | b # bs \<Rightarrow> Some (foldl (\<lambda>acc x. acc * 256 + uint x) (if 0x80 \<le> b then - 1 else 0) buf))"

text \<open>Sizes: base-128 varints, seven bits a byte, the high bit set on all but the last.\<close>

fun sizeOfPVarInt_down :: "int \<Rightarrow> int \<Rightarrow> nat \<Rightarrow> nat" where
  "sizeOfPVarInt_down v lead 0 = 1"
| "sizeOfPVarInt_down v lead (Suc n) =
     (if v div 2 ^ (7 * Suc n - 1) \<noteq> lead then Suc (Suc n) else sizeOfPVarInt_down v lead n)"

definition sizeOfPVarInt :: "int \<Rightarrow> nat \<Rightarrow> nat" where
  "sizeOfPVarInt v width = sizeOfPVarInt_down v (v div 2 ^ (width - 1)) (width div 7)"

definition encodePVarInt :: "int \<Rightarrow> nat \<Rightarrow> byte list" where
  "encodePVarInt v n =
     map (\<lambda>k. word_of_int ((v div 2 ^ (7 * k)) mod 128 + (if 0 < k then 128 else 0))) (rev [0..<n])"

fun readPVarInt :: "int \<Rightarrow> byte list \<Rightarrow> (int \<times> byte list) option" where
  "readPVarInt acc [] = None"
| "readPVarInt acc (b # bs) =
     (let acc' = acc * 128 + uint (b AND 0x7F)
      in if b < 0x80 then Some (acc', bs) else readPVarInt acc' bs)"

definition decodePVarInt :: "byte list \<Rightarrow> (int \<times> byte list) option" where
  "decodePVarInt buf =
     (case buf of
        [] \<Rightarrow> None
      | b # bs \<Rightarrow> readPVarInt (if b AND 0x40 \<noteq> 0 then - 1 else 0) buf)"

text \<open>A packet on the wire, and the parsing of a node's body into its primitive packets.\<close>

definition packet :: "byte \<Rightarrow> byte list \<Rightarrow> byte list" where
  "packet tag valbuf =
     tag # encodePVarInt (int (length valbuf)) (sizeOfPVarInt (int (length valbuf)) 32) @ valbuf"

fun parse_packets :: "nat \<Rightarrow> byte list \<Rightarrow> (byte \<rightharpoonup> byte list) \<Rightarrow> error + (byte \<rightharpoonup> byte list)" where
  "parse_packets 0 buf m = (if buf = [] then Inr m else Inl (ErrorString ''malformed''))"
| "parse_packets (Suc n) buf m =
     (case buf of
        [] \<Rightarrow> Inr m
      | tag # rest \<Rightarrow>
          (case decodePVarInt rest of
             None \<Rightarrow> Inl (ErrorString ''malformed'')
           | Some (len, rest') \<Rightarrow>
               if len < 0 \<or> int (length rest') < len then Inl (ErrorString ''malformed'')
               else parse_packets n (drop (nat len) rest')
                      (if tag AND 0x80 \<noteq> 0 then m else m(tag AND 0x3F \<mapsto> take (nat len) rest'))))"

definition y3 :: Y3 where
  "y3 =
     \<lparr>SetStringValue = map of_char,
      SetInt64Value = (\<lambda>v. encodeNVarInt (sint v) (sizeOfNVarInt (sint v) 64)),
      SetUInt32Value = (\<lambda>v. encodeNVarInt (sint v) (sizeOfNVarInt (sint v) 32)),
      NodeEncode = (\<lambda>ty ps. packet (ty OR 0x80) (concat (map (\<lambda>(tag, valbuf). packet tag valbuf) ps))),
      DecodeToNodePacket =
        (\<lambda>buf. case buf of
           [] \<Rightarrow> Inl (ErrorString ''empty buf'')
         | tag # rest \<Rightarrow>
             (case decodePVarInt rest of
                None \<Rightarrow> Inl (ErrorString ''malformed'')
              | Some (len, rest') \<Rightarrow>
                  if len < 0 \<or> int (length rest') < len then Inl (ErrorString ''malformed'')
                  else parse_packets (nat len) (take (nat len) rest') Map.empty)),
      ToUTF8String = (\<lambda>valbuf. Inr (map (\<lambda>b. char_of (unat b)) valbuf)),
      ToInt64 = (\<lambda>valbuf. case decodeNVarInt valbuf of
                   None \<Rightarrow> Inl (ErrorString ''nothing to decode'')
                 | Some v \<Rightarrow> Inr (word_of_int v)),
      ToInt32 = (\<lambda>valbuf. case decodeNVarInt valbuf of
                   None \<Rightarrow> Inl (ErrorString ''nothing to decode'')
                 | Some v \<Rightarrow> Inr (word_of_int v))\<rparr>"

section \<open>Properties of the client\<close>

text \<open>
  C8. For every byte slice \<open>p\<close>, \<^verbatim>\<open>Client.Write(p)\<close> returns \<open>(0, nil)\<close> and leaves the
  client as it was: nothing is queued on the write channel and nothing else changes.
\<close>

theorem Write_returns_zero_nil:
  "Write p c = ((0, None), c)"
  by (simp add: Write_def)

subsection \<open>Connect\<close>

lemma connect_from_returns:
  assumes ret: "connect_from env i c = Some y" and u: "connectUntilSucceed (opts c)"
  shows "\<exists>j. i \<le> j \<and> \<not> retryable (env j)"
proof -
  have "connectUntilSucceed (opts c) \<longrightarrow> (\<exists>j. i \<le> j \<and> \<not> retryable (env j))"
  proof (rule connect_from.raw_induct
      [where P = "\<lambda>env i c y. connectUntilSucceed (opts c) \<longrightarrow> (\<exists>j. i \<le> j \<and> \<not> retryable (env j))"
         and env = env and i = i and c = c and y = y])
    show "connect_from env i c = Some y" by (rule ret)
  next
    fix cf :: "(nat \<Rightarrow> attempt) \<Rightarrow> nat \<Rightarrow> Client \<Rightarrow> (error option \<times> Client) option"
    fix env i c y
    assume IH: "\<And>env i c y. cf env i c = Some y \<Longrightarrow> connectUntilSucceed (opts c) \<longrightarrow> (\<exists>j. i \<le> j \<and> \<not> retryable (env j))"
    assume body: "(case openControlStream (env i) of
        (cs, Some err) \<Rightarrow>
          if connectUntilSucceed (opts c) \<and> \<not> errors_As_ErrAuthenticateFailed err
          then cf env (Suc i)
                 (c\<lparr>dials := Suc (dials c),
                    logger := logger c @ [''failed to connect to zipper, trying to reconnect''],
                    slept := Suc (slept c)\<rparr>)
          else Some (Some err,
                 c\<lparr>dials := Suc (dials c),
                   logger := logger c @ [''can not connect to zipper'']\<rparr>)
      | (cs, None) \<Rightarrow>
          Some (None,
            c\<lparr>dials := Suc (dials c),
              logger := logger c @ [''connected to zipper''],
              controlStream := cs,
              background := background c @ [cs]\<rparr>)) = Some y"
    show "connectUntilSucceed (opts c) \<longrightarrow> (\<exists>j. i \<le> j \<and> \<not> retryable (env j))"
    proof (cases "retryable (env i)")
      case False
      then show ?thesis by blast
    next
      case True
      show ?thesis
      proof
        assume uu: "connectUntilSucceed (opts c)"
        from True obtain cs err where o: "openControlStream (env i) = (cs, Some err)"
          and na: "\<not> errors_As_ErrAuthenticateFailed err"
          by (auto simp: retryable_def split: prod.splits option.splits)
        from body o na uu obtain c' where r: "cf env (Suc i) c' = Some y" and oc: "opts c' = opts c"
          by auto
        from IH[OF r] uu oc obtain j where "Suc i \<le> j" "\<not> retryable (env j)" by auto
        then show "\<exists>j. i \<le> j \<and> \<not> retryable (env j)" using Suc_leD by blast
      qed
    qed
  qed
  with u show ?thesis by simp
qed

lemma connect_from_dials:
  assumes ret: "connect_from env i c = Some y"
  shows "dials c < dials (snd y)"
proof (rule connect_from.raw_induct
      [where P = "\<lambda>env i c y. dials c < dials (snd y)" and env = env and i = i and c = c and y = y])
  show "connect_from env i c = Some y" by (rule ret)
next
  fix cf :: "(nat \<Rightarrow> attempt) \<Rightarrow> nat \<Rightarrow> Client \<Rightarrow> (error option \<times> Client) option"
  fix env i c y
  assume IH: "\<And>env i c y. cf env i c = Some y \<Longrightarrow> dials c < dials (snd y)"
  assume body: "(case openControlStream (env i) of
        (cs, Some err) \<Rightarrow>
          if connectUntilSucceed (opts c) \<and> \<not> errors_As_ErrAuthenticateFailed err
          then cf env (Suc i)
                 (c\<lparr>dials := Suc (dials c),
                    logger := logger c @ [''failed to connect to zipper, trying to reconnect''],
                    slept := Suc (slept c)\<rparr>)
          else Some (Some err,
                 c\<lparr>dials := Suc (dials c),
                   logger := logger c @ [''can not connect to zipper'']\<rparr>)
      | (cs, None) \<Rightarrow>
          Some (None,
            c\<lparr>dials := Suc (dials c),
              logger := logger c @ [''connected to zipper''],
              controlStream := cs,
              background := background c @ [cs]\<rparr>)) = Some y"
  from body show "dials c < dials (snd y)"
    by (auto split: prod.splits option.splits if_splits dest!: IH)
qed

lemma connect_from_retry:
  assumes "retryable (env i)" and "connectUntilSucceed (opts c)"
  shows "connect_from env i c =
         connect_from env (Suc i)
           (c\<lparr>dials := Suc (dials c),
              logger := logger c @ [''failed to connect to zipper, trying to reconnect''],
              slept := Suc (slept c)\<rparr>)"
  using assms
  by (subst connect_from.simps) (auto simp: retryable_def split: prod.splits option.splits)

lemma connect_from_fail:
  assumes "openControlStream (env i) = (cs, Some err)"
    and "\<not> connectUntilSucceed (opts c) \<or> errors_As_ErrAuthenticateFailed err"
  shows "connect_from env i c =
         Some (Some err, c\<lparr>dials := Suc (dials c),
                            logger := logger c @ [''can not connect to zipper'']\<rparr>)"
  using assms by (subst connect_from.simps) auto

lemma connect_from_ok:
  assumes "openControlStream (env i) = (cs, None)"
  shows "connect_from env i c =
         Some (None, c\<lparr>dials := Suc (dials c),
              logger := logger c @ [''connected to zipper''],
              controlStream := cs,
              background := background c @ [cs]\<rparr>)"
  using assms by (subst connect_from.simps) auto

lemma connect_from_retries:
  assumes "connectUntilSucceed (opts c)" and "\<forall>j<k. retryable (env j)"
  shows "\<exists>c'. connect_from env 0 c = connect_from env k c' \<and> opts c' = opts c \<and>
              dials c' = dials c + k \<and> slept c' = slept c + k"
  using assms(2)
proof (induction k)
  case 0
  show ?case by (rule exI[of _ c]) simp
next
  case (Suc k)
  then obtain c' where e: "connect_from env 0 c = connect_from env k c'" and o: "opts c' = opts c"
    and d: "dials c' = dials c + k" and s: "slept c' = slept c + k"
    by auto
  from Suc.prems have "retryable (env k)" by simp
  from connect_from_retry[where env = env and i = k and c = c'] this o assms(1)
  have "connect_from env k c' = connect_from env (Suc k)
           (c'\<lparr>dials := Suc (dials c'),
              logger := logger c' @ [''failed to connect to zipper, trying to reconnect''],
              slept := Suc (slept c')\<rparr>)" by simp
  with e o d s show ?case
    by (intro exI[of _ "c'\<lparr>dials := Suc (dials c'),
              logger := logger c' @ [''failed to connect to zipper, trying to reconnect''],
              slept := Suc (slept c')\<rparr>"]) simp
qed

text \<open>
  C1. A failing \<^verbatim>\<open>Connect\<close> (the check of the observed tags passed). With
  \<^verbatim>\<open>connectUntilSucceed\<close> unset it returns the error of the first attempt, after one
  attempt and without sleeping. With it set, \<open>k\<close> failed attempts whose error is not
  \<^verbatim>\<open>ErrAuthenticateFailed\<close> leave the call at attempt \<open>k\<close>, having slept \<open>k\<close> seconds;
  when every attempt fails so, the call never returns. An attempt that fails with
  \<^verbatim>\<open>ErrAuthenticateFailed\<close> ends the call with that error, with no further attempt and
  no further sleep, also when \<^verbatim>\<open>connectUntilSucceed\<close> is set.
\<close>

theorem Connect_failure_policy:
  assumes pre: "\<not> (clientType c = ClientTypeStreamFunction \<and> observeDataTags (opts c) = [])"
  shows "(\<not> connectUntilSucceed (opts c) \<and> openControlStream (env 0) = (cs, Some err) \<longrightarrow>
            (\<exists>c'. Connect env c = Some (Some err, c') \<and> dials c' = Suc (dials c) \<and> slept c' = slept c))
       \<and> (connectUntilSucceed (opts c) \<and> (\<forall>j<k. retryable (env j)) \<longrightarrow>
            (\<exists>c'. Connect env c = connect_from env k c' \<and> opts c' = opts c \<and>
                  dials c' = dials c + k \<and> slept c' = slept c + k))
       \<and> (connectUntilSucceed (opts c) \<and> (\<forall>j. retryable (env j)) \<longrightarrow> Connect env c = None)
       \<and> (connectUntilSucceed (opts c) \<and> (\<forall>j<k. retryable (env j)) \<and>
          openControlStream (env k) = (cs, Some err) \<and> errors_As_ErrAuthenticateFailed err \<longrightarrow>
            (\<exists>c'. Connect env c = Some (Some err, c') \<and> dials c' = Suc (dials c + k) \<and>
                  slept c' = slept c + k))"
proof -
  from pre have C: "Connect env c = connect_from env 0 c" by (auto simp: Connect_def)
  have A: "\<not> connectUntilSucceed (opts c) \<and> openControlStream (env 0) = (cs, Some err) \<longrightarrow>
            (\<exists>c'. Connect env c = Some (Some err, c') \<and> dials c' = Suc (dials c) \<and> slept c' = slept c)"
    by (auto simp: C connect_from_fail)
  have B: "connectUntilSucceed (opts c) \<and> (\<forall>j<k. retryable (env j)) \<longrightarrow>
            (\<exists>c'. Connect env c = connect_from env k c' \<and> opts c' = opts c \<and>
                  dials c' = dials c + k \<and> slept c' = slept c + k)"
    using connect_from_retries[of c k env] by (simp add: C)
  have D: "connectUntilSucceed (opts c) \<and> (\<forall>j. retryable (env j)) \<longrightarrow> Connect env c = None"
  proof (intro impI, elim conjE)
    assume u: "connectUntilSucceed (opts c)" and all: "\<forall>j. retryable (env j)"
    show "Connect env c = None"
    proof (cases "connect_from env 0 c")
      case None
      then show ?thesis by (simp add: C)
    next
      case (Some y)
      from connect_from_returns[OF Some u] all show ?thesis by blast
    qed
  qed
  have E: "connectUntilSucceed (opts c) \<and> (\<forall>j<k. retryable (env j)) \<and>
          openControlStream (env k) = (cs, Some err) \<and> errors_As_ErrAuthenticateFailed err \<longrightarrow>
            (\<exists>c'. Connect env c = Some (Some err, c') \<and> dials c' = Suc (dials c + k) \<and>
                  slept c' = slept c + k)"
  proof (intro impI, elim conjE)
    assume u: "connectUntilSucceed (opts c)" and r: "\<forall>j<k. retryable (env j)"
      and o: "openControlStream (env k) = (cs, Some err)" and a: "errors_As_ErrAuthenticateFailed err"
    from connect_from_retries[OF u r] obtain c' where
      e: "connect_from env 0 c = connect_from env k c'" and d: "dials c' = dials c + k"
      and s: "slept c' = slept c + k" by blast
    from connect_from_fail[where env = env and i = k and c = c' and cs = cs and err = err] o a
    have "connect_from env k c' = Some (Some err, c'\<lparr>dials := Suc (dials c'),
                            logger := logger c' @ [''can not connect to zipper'']\<rparr>)" by simp
    with e d s show "\<exists>c'. Connect env c = Some (Some err, c') \<and> dials c' = Suc (dials c + k) \<and>
                  slept c' = slept c + k"
      by (simp add: C)
  qed
  from A B D E show ?thesis by blast
qed

lemma retryable_dial_fails: "retryable dial_fails"
  by (simp add: retryable_def dial_fails_def openControlStream_def)

lemma open_auth_fails:
  "openControlStream auth_fails = (Some (ControlStream 0), Some (ErrAuthenticateFailed ''authentication failed''))"
  by (simp add: auth_fails_def openControlStream_def)

lemma open_dial_fails:
  "openControlStream dial_fails = (None, Some (ErrorString ''timeout: no recent network activity''))"
  by (simp add: dial_fails_def openControlStream_def)

lemma open_dial_succeeds:
  "openControlStream dial_succeeds = (Some (ControlStream 0), None)"
  by (simp add: dial_succeeds_def openControlStream_def)

lemma NewClient_fields:
  "clientType (NewClient n t os i) = t"
  "dials (NewClient n t os i) = 0"
  "slept (NewClient n t os i) = 0"
  "opts (NewClient n t os i) = fold (\<lambda>o' acc. o' acc) os defaultClientOption"
  "writeFrameChan (NewClient n t os i) = make_chan 0"
  by (simp_all add: NewClient_def Let_def)

theorem Connect_failure_policy_witness:
  "(\<exists>c'. Connect (\<lambda>i. dial_fails) (NewClient ''src'' ClientTypeSource [] ''id'')
          = Some (Some (ErrorString ''timeout: no recent network activity''), c')
        \<and> dials c' = 1 \<and> slept c' = 0)
   \<and> Connect (\<lambda>i. dial_fails) (NewClient ''src'' ClientTypeSource [WithConnectUntilSucceed] ''id'') = None
   \<and> (\<exists>c'. Connect (\<lambda>i. if i < 2 then dial_fails else auth_fails)
            (NewClient ''src'' ClientTypeSource [WithConnectUntilSucceed] ''id'')
          = Some (Some (ErrAuthenticateFailed ''authentication failed''), c')
        \<and> dials c' = 3 \<and> slept c' = 2)"
proof -
  let ?c0 = "NewClient ''src'' ClientTypeSource [] ''id''"
  let ?c1 = "NewClient ''src'' ClientTypeSource [WithConnectUntilSucceed] ''id''"
  have p0: "\<not> (clientType ?c0 = ClientTypeStreamFunction \<and> observeDataTags (opts ?c0) = [])"
    by (simp add: NewClient_fields)
  have p1: "\<not> (clientType ?c1 = ClientTypeStreamFunction \<and> observeDataTags (opts ?c1) = [])"
    by (simp add: NewClient_fields)
  have u0: "\<not> connectUntilSucceed (opts ?c0)"
    by (simp add: NewClient_fields defaultClientOption_def)
  have u1: "connectUntilSucceed (opts ?c1)"
    by (simp add: NewClient_fields defaultClientOption_def WithConnectUntilSucceed_def)
  have a: "\<exists>c'. Connect (\<lambda>i. dial_fails) ?c0
          = Some (Some (ErrorString ''timeout: no recent network activity''), c')
        \<and> dials c' = 1 \<and> slept c' = 0"
    using Connect_failure_policy[OF p0, of "\<lambda>i. dial_fails" None
        "ErrorString ''timeout: no recent network activity''" 0] u0 open_dial_fails
    by (simp add: NewClient_fields)
  have b: "Connect (\<lambda>i. dial_fails) ?c1 = None"
    using Connect_failure_policy[OF p1, of "\<lambda>i. dial_fails" None
        "ErrorString ''timeout: no recent network activity''" 0] u1 retryable_dial_fails
    by simp
  have c: "\<exists>c'. Connect (\<lambda>i. if i < 2 then dial_fails else auth_fails) ?c1
          = Some (Some (ErrAuthenticateFailed ''authentication failed''), c')
        \<and> dials c' = 3 \<and> slept c' = 2"
    using Connect_failure_policy[OF p1, of "\<lambda>i. if i < 2 then dial_fails else auth_fails"
        "Some (ControlStream 0)" "ErrAuthenticateFailed ''authentication failed''" 2]
      u1 retryable_dial_fails open_auth_fails
    by (simp add: NewClient_fields eval_nat_numeral)
  from a b c show ?thesis by blast
qed

text \<open>
  C9. A StreamFunction client with no observed tags gets a non-nil error from
  \<^verbatim>\<open>Connect\<close> with the client untouched: no attempt to open a control stream was made.
  A client of another type is not checked: \<^verbatim>\<open>Connect\<close> goes on to the first attempt,
  and whenever it returns it has made at least one.
\<close>

theorem Connect_checks_observed_tags:
  "(clientType c = ClientTypeStreamFunction \<and> observeDataTags (opts c) = [] \<longrightarrow>
      (\<exists>e. Connect env c = Some (Some e, c)))
   \<and> (clientType c \<noteq> ClientTypeStreamFunction \<longrightarrow>
        Connect env c = connect_from env 0 c
      \<and> (\<forall>r c'. Connect env c = Some (r, c') \<longrightarrow> dials c < dials c'))"
proof -
  have "dials c < dials c'" if "connect_from env 0 c = Some (r, c')" for r c'
    using connect_from_dials[OF that] by simp
  then show ?thesis by (auto simp: Connect_def)
qed

theorem Connect_checks_observed_tags_witness:
  "(\<exists>e. Connect (\<lambda>i. dial_succeeds) (NewClient ''sfn'' ClientTypeStreamFunction [] ''id'')
         = Some (Some e, NewClient ''sfn'' ClientTypeStreamFunction [] ''id''))
   \<and> (\<exists>c'. Connect (\<lambda>i. dial_succeeds) (NewClient ''src'' ClientTypeSource [] ''id'') = Some (None, c')
         \<and> 0 < dials c')"
proof -
  let ?s = "NewClient ''sfn'' ClientTypeStreamFunction [] ''id''"
  let ?c = "NewClient ''src'' ClientTypeSource [] ''id''"
  have a: "\<exists>e. Connect (\<lambda>i. dial_succeeds) ?s = Some (Some e, ?s)"
    using Connect_checks_observed_tags[of ?s "\<lambda>i. dial_succeeds"]
    by (simp add: NewClient_fields defaultClientOption_def)
  have "Connect (\<lambda>i. dial_succeeds) ?c = connect_from (\<lambda>i. dial_succeeds) 0 ?c
      \<and> (\<forall>r c'. Connect (\<lambda>i. dial_succeeds) ?c = Some (r, c') \<longrightarrow> dials ?c < dials c')"
    using Connect_checks_observed_tags[of ?c "\<lambda>i. dial_succeeds"]
    by (simp add: NewClient_fields)
  then have b: "\<exists>c'. Connect (\<lambda>i. dial_succeeds) ?c = Some (None, c') \<and> 0 < dials c'"
    by (simp add: connect_from_ok[where cs = "Some (ControlStream 0)"] open_dial_succeeds)
  from a b show ?thesis by blast
qed

text \<open>
  C5. \<^verbatim>\<open>handleFrameError\<close>: a nil error changes nothing. \<^verbatim>\<open>io.EOF\<close> cancels the
  client's context and leaves the reconnection channel alone. Any other error goes to the
  error handler, the context stays as it was, and one value is sent on the reconnection
  channel if that send can proceed at once; if not, the function returns all the same.
\<close>

theorem handleFrameError_policy:
  "handleFrameError None reconnection receiving c = (c, reconnection)
   \<and> handleFrameError (Some EOF) reconnection receiving c =
       (c\<lparr>errorfn_calls := errorfn_calls c @ [EOF], ctxCancelled := True\<rparr>, reconnection)
   \<and> (e \<noteq> EOF \<longrightarrow>
        handleFrameError (Some e) reconnection receiving c =
          (c\<lparr>errorfn_calls := errorfn_calls c @ [e]\<rparr>,
           case try_send reconnection receiving () of Some ch \<Rightarrow> ch | None \<Rightarrow> reconnection))"
  by (auto simp: handleFrameError_def Let_def split: option.splits)

theorem handleFrameError_policy_witness:
  "handleFrameError (Some (ErrorString ''reset'')) (make_chan 0) True
      (NewClient ''src'' ClientTypeSource [] ''id'') =
     ((NewClient ''src'' ClientTypeSource [] ''id'')\<lparr>errorfn_calls := [ErrorString ''reset'']\<rparr>,
      \<lparr>capacity = 0, queue = [], handed = [()]\<rparr>)
   \<and> handleFrameError (Some (ErrorString ''reset'')) (make_chan 0) False
      (NewClient ''src'' ClientTypeSource [] ''id'') =
     ((NewClient ''src'' ClientTypeSource [] ''id'')\<lparr>errorfn_calls := [ErrorString ''reset'']\<rparr>,
      make_chan 0)"
  using handleFrameError_policy[of "make_chan 0" True "NewClient ''src'' ClientTypeSource [] ''id''"
      "ErrorString ''reset''"]
    handleFrameError_policy[of "make_chan 0" False "NewClient ''src'' ClientTypeSource [] ''id''"
      "ErrorString ''reset''"]
  by (simp add: try_send_def make_chan_def NewClient_def)

text \<open>
  C10. \<^verbatim>\<open>Context.Write(tag, nil)\<close> returns nil and calls the writer not at all. For data
  that is not nil it calls the writer's \<^verbatim>\<open>WriteFrame\<close> exactly once, with a data frame
  carrying the given tag, the data as payload and the metadata of the incoming frame, and
  returns what the writer returns.
\<close>

theorem Context_Write_nil_or_one_frame:
  "Context_Write c tag None = (None, c)
   \<and> Context_Write c tag (Some d) =
       (answer (writer c)
          (IsDataFrame \<lparr>Tag = tag, Metadata = Metadata (dataFrame c), Payload = Some d,
                        Streamed = False\<rparr>),
        c\<lparr>writer := (writer c)\<lparr>writes := writes (writer c) @
          [IsDataFrame \<lparr>Tag = tag, Metadata = Metadata (dataFrame c), Payload = Some d,
                        Streamed = False\<rparr>]\<rparr>\<rparr>)"
  by (simp add: Context_Write_def writer_WriteFrame_def Let_def)

subsection \<open>WriteFrame\<close>

lemma send_blocking_returns:
  assumes "send_blocking ch receiving t x = Some ch'"
  shows "\<exists>u. t \<le> u \<and> try_send ch (receiving u) x = Some ch'"
proof (rule send_blocking.raw_induct
    [where P = "\<lambda>ch receiving t x ch'. \<exists>u. t \<le> u \<and> try_send ch (receiving u) x = Some ch'"
       and xa = "(((ch, receiving), t), x)" and y = ch', simplified])
  show "send_blocking ch receiving t x = Some ch'" by (rule assms)
next
  fix sb :: "'a chan \<Rightarrow> (nat \<Rightarrow> bool) \<Rightarrow> nat \<Rightarrow> 'a \<Rightarrow> 'a chan option"
  fix ch receiving t x ch'
  assume IH: "\<And>ch receiving t x ch'. sb ch receiving t x = Some ch' \<Longrightarrow>
                \<exists>u\<ge>t. try_send ch (receiving u) x = Some ch'"
  assume body: "(case try_send ch (receiving t) x of
                   None \<Rightarrow> sb ch receiving (Suc t) x
                 | Some ch' \<Rightarrow> Some ch') = Some ch'"
  show "\<exists>u\<ge>t. try_send ch (receiving u) x = Some ch'"
  proof (cases "try_send ch (receiving t) x")
    case None
    with body have "sb ch receiving (Suc t) x = Some ch'" by simp
    from IH[OF this] show ?thesis using Suc_leD by blast
  next
    case (Some a)
    with body show ?thesis by auto
  qed
qed

lemma send_blocking_proceeds:
  "try_send ch (receiving (t + k)) x \<noteq> None \<Longrightarrow> send_blocking ch receiving t x \<noteq> None"
proof (induction k arbitrary: t)
  case 0
  then show ?case by (subst send_blocking.simps) (auto split: option.splits)
next
  case (Suc k)
  from Suc.prems have "try_send ch (receiving (Suc t + k)) x \<noteq> None" by simp
  from Suc.IH[OF this] show ?case by (subst send_blocking.simps) (auto split: option.splits)
qed

lemma try_send_keeps:
  "try_send ch r x = Some ch' \<Longrightarrow>
     (handed ch' = handed ch @ [x] \<and> queue ch' = queue ch) \<or>
     (queue ch' = queue ch @ [x] \<and> handed ch' = handed ch)"
  by (auto simp: try_send_def split: if_splits)

text \<open>
  C6 (as amended). \<^verbatim>\<open>WriteFrame\<close> has two modes. In blocking mode every return is nil
  with the frame handed over or queued; the call returns as soon as the channel accepts the
  frame and never returns if it never does. In non-blocking mode, when the channel cannot
  accept the frame at once, the frame is dropped and the error "yomo: client has lost
  connection" is returned. The channel of a new client has capacity 0 whatever the options
  are: \<^verbatim>\<open>nonBlockWrite\<close> selects the way of sending, not the capacity.
\<close>

theorem WriteFrame_modes:
  "(\<not> nonBlockWrite (opts c) \<longrightarrow>
      (\<forall>r c'. WriteFrame receiving f c = Some (r, c') \<longrightarrow>
         r = None \<and>
         ((handed (writeFrameChan c') = handed (writeFrameChan c) @ [f] \<and>
           queue (writeFrameChan c') = queue (writeFrameChan c)) \<or>
          (queue (writeFrameChan c') = queue (writeFrameChan c) @ [f] \<and>
           handed (writeFrameChan c') = handed (writeFrameChan c))))
    \<and> ((\<exists>t. try_send (writeFrameChan c) (receiving t) f \<noteq> None) \<longrightarrow>
         WriteFrame receiving f c \<noteq> None)
    \<and> ((\<forall>t. try_send (writeFrameChan c) (receiving t) f = None) \<longrightarrow>
         WriteFrame receiving f c = None))
   \<and> (nonBlockWrite (opts c) \<and> try_send (writeFrameChan c) (receiving 0) f = None \<longrightarrow>
        (\<exists>c'. WriteFrame receiving f c =
               Some (Some (ErrorString ''yomo: client has lost connection''), c')
            \<and> writeFrameChan c' = writeFrameChan c))
   \<and> capacity (writeFrameChan (NewClient appName ctype os newID)) = 0"
proof -
  have ret: "r = None \<and>
         ((handed (writeFrameChan c') = handed (writeFrameChan c) @ [f] \<and>
           queue (writeFrameChan c') = queue (writeFrameChan c)) \<or>
          (queue (writeFrameChan c') = queue (writeFrameChan c) @ [f] \<and>
           handed (writeFrameChan c') = handed (writeFrameChan c)))"
    if nb: "\<not> nonBlockWrite (opts c)" and w: "WriteFrame receiving f c = Some (r, c')" for r c'
  proof -
    from nb w obtain ch where s: "send_blocking (writeFrameChan c) receiving 0 f = Some ch"
      and r: "r = None" and c': "c' = c\<lparr>writeFrameChan := ch\<rparr>"
      by (auto simp: WriteFrame_def blockWriteFrame_def split: option.splits)
    from send_blocking_returns[OF s] obtain u where "try_send (writeFrameChan c) (receiving u) f = Some ch"
      by blast
    from try_send_keeps[OF this] r c' show ?thesis by simp
  qed
  have live: "WriteFrame receiving f c \<noteq> None"
    if nb: "\<not> nonBlockWrite (opts c)" and t: "\<exists>t. try_send (writeFrameChan c) (receiving t) f \<noteq> None"
  proof -
    from t obtain t where "try_send (writeFrameChan c) (receiving (0 + t)) f \<noteq> None" by auto
    from send_blocking_proceeds[where ch = "writeFrameChan c" and receiving = receiving
        and t = 0 and k = t and x = f] this nb show ?thesis
      by (auto simp: WriteFrame_def blockWriteFrame_def split: option.splits)
  qed
  have stall: "WriteFrame receiving f c = None"
    if nb: "\<not> nonBlockWrite (opts c)" and t: "\<forall>t. try_send (writeFrameChan c) (receiving t) f = None"
  proof (cases "send_blocking (writeFrameChan c) receiving 0 f")
    case None
    with nb show ?thesis by (simp add: WriteFrame_def blockWriteFrame_def)
  next
    case (Some ch)
    from send_blocking_returns[OF Some] t show ?thesis by auto
  qed
  have drop: "\<exists>c'. WriteFrame receiving f c =
               Some (Some (ErrorString ''yomo: client has lost connection''), c')
            \<and> writeFrameChan c' = writeFrameChan c"
    if "nonBlockWrite (opts c)" and "try_send (writeFrameChan c) (receiving 0) f = None"
    using that by (simp add: WriteFrame_def nonBlockWriteFrame_def)
  have cap: "capacity (writeFrameChan (NewClient appName ctype os newID)) = 0"
    by (simp add: NewClient_def Let_def make_chan_def)
  from ret live stall drop cap show ?thesis by blast
qed

theorem WriteFrame_modes_witness:
  "WriteFrame (\<lambda>t. False) (IsOtherFrame 0) (NewClient ''src'' ClientTypeSource [] ''id'') = None
   \<and> WriteFrame (\<lambda>t. 2 \<le> t) (IsOtherFrame 0) (NewClient ''src'' ClientTypeSource [] ''id'') \<noteq> None
   \<and> (\<exists>c'. WriteFrame (\<lambda>t. False) (IsOtherFrame 0)
             (NewClient ''src'' ClientTypeSource [WithNonBlockWriteFrame] ''id'') =
            Some (Some (ErrorString ''yomo: client has lost connection''), c')
          \<and> writeFrameChan c' = make_chan 0)"
proof -
  let ?c = "NewClient ''src'' ClientTypeSource [] ''id''"
  let ?n = "NewClient ''src'' ClientTypeSource [WithNonBlockWriteFrame] ''id''"
  have b: "\<not> nonBlockWrite (opts ?c)" by (simp add: NewClient_def defaultClientOption_def)
  have n: "nonBlockWrite (opts ?n)"
    by (simp add: NewClient_def defaultClientOption_def WithNonBlockWriteFrame_def)
  have chc: "writeFrameChan ?c = make_chan 0" by (simp add: NewClient_def Let_def)
  have chn: "writeFrameChan ?n = make_chan 0" by (simp add: NewClient_def Let_def)
  have 1: "WriteFrame (\<lambda>t. False) (IsOtherFrame 0) ?c = None"
    using WriteFrame_modes[of ?c "\<lambda>t. False" "IsOtherFrame 0"] b
    by (simp add: chc try_send_def make_chan_def)
  have "try_send (make_chan 0) (2 \<le> (2::nat)) (IsOtherFrame 0) \<noteq> None"
    by (simp add: try_send_def make_chan_def)
  then have "\<exists>t. try_send (writeFrameChan ?c) (2 \<le> (t::nat)) (IsOtherFrame 0) \<noteq> None"
    unfolding chc by blast
  then have 2: "WriteFrame (\<lambda>t. 2 \<le> t) (IsOtherFrame 0) ?c \<noteq> None"
    using WriteFrame_modes[of ?c "\<lambda>t. 2 \<le> t" "IsOtherFrame 0"] b by blast
  have 3: "\<exists>c'. WriteFrame (\<lambda>t. False) (IsOtherFrame 0) ?n =
            Some (Some (ErrorString ''yomo: client has lost connection''), c')
          \<and> writeFrameChan c' = make_chan 0"
    using WriteFrame_modes[of ?n "\<lambda>t. False" "IsOtherFrame 0"] n
    by (simp add: chn try_send_def make_chan_def)
  from 1 2 3 show ?thesis by blast
qed

text \<open>
  The claim as written has the capacity depend on \<^verbatim>\<open>nonBlockWrite\<close>; two clients that
  differ in that option both get an unbuffered channel.
\<close>

theorem writeFrameChan_capacity_counterexample:
  "nonBlockWrite (opts (NewClient ''src'' ClientTypeSource [WithNonBlockWriteFrame] ''id''))
   \<and> \<not> nonBlockWrite (opts (NewClient ''src'' ClientTypeSource [] ''id''))
   \<and> capacity (writeFrameChan (NewClient ''src'' ClientTypeSource [WithNonBlockWriteFrame] ''id'')) = 0
   \<and> capacity (writeFrameChan (NewClient ''src'' ClientTypeSource [] ''id'')) = 0"
  by (simp add: NewClient_def defaultClientOption_def WithNonBlockWriteFrame_def make_chan_def)

section \<open>Properties of the broker\<close>

text \<open>Invariant of the loop: a tag with an entry in the observers map has no parked reader.\<close>

lemma observer_arrives_inv:
  assumes "\<forall>t. observers b t \<noteq> None \<longrightarrow> readers b t = None"
  shows "\<forall>t. observers (observer_arrives e ob b) t \<noteq> None \<longrightarrow> readers (observer_arrives e ob b) t = None"
  using assms by (auto simp: observer_arrives_def split: option.splits sum.splits)

lemma reader_arrives_inv:
  assumes "\<forall>t. observers b t \<noteq> None \<longrightarrow> readers b t = None"
  shows "\<forall>t. observers (reader_arrives e rd b) t \<noteq> None \<longrightarrow> readers (reader_arrives e rd b) t = None"
  using assms by (auto simp: reader_arrives_def split: option.splits prod.splits)

lemma run_step_inv:
  assumes "\<forall>t. observers b t \<noteq> None \<longrightarrow> readers b t = None"
  shows "\<forall>t. observers (run_step b ev) t \<noteq> None \<longrightarrow> readers (run_step b ev) t = None"
proof (cases "returned b")
  case True
  with assms show ?thesis by (simp add: run_step_def)
next
  case False
  show ?thesis
  proof (cases "fst ev")
    case CtxDone
    with False assms show ?thesis by (simp add: run_step_def)
  next
    case (FromObserverChan ob)
    with False observer_arrives_inv[OF assms] show ?thesis by (simp add: run_step_def)
  next
    case (FromReaderChan rd)
    with False reader_arrives_inv[OF assms] show ?thesis by (simp add: run_step_def)
  next
    case (FromReadEOFChan tag)
    with False assms show ?thesis by (simp add: run_step_def)
  qed
qed

lemma foldl_run_step_inv:
  assumes "\<forall>t. observers b t \<noteq> None \<longrightarrow> readers b t = None"
  shows "\<forall>t. observers (foldl run_step b evs) t \<noteq> None \<longrightarrow> readers (foldl run_step b evs) t = None"
  using assms
proof (induction evs arbitrary: b)
  case Nil
  then show ?case by simp
next
  case (Cons ev evs)
  from Cons.IH[OF run_step_inv[OF Cons.prems]] show ?case by simp
qed

lemma Broker_run_inv:
  "readers (Broker_run evs) t = Some r \<Longrightarrow> observers (Broker_run evs) t = None"
  using foldl_run_step_inv[of NewBroker evs]
  by (cases "observers (Broker_run evs) t") (auto simp: Broker_run_def NewBroker_def)

lemma run_step_keeps_reader:
  assumes "readers b t = Some old"
  shows "readers (run_step b ev) t = Some old \<or> readers (run_step b ev) t = None"
  using assms
  by (cases "fst ev")
     (auto simp: run_step_def observer_arrives_def reader_arrives_def
           split: option.splits sum.splits prod.splits if_splits)

text \<open>
  C3. The readers map holds at most one reader per tag, and a parked reader is never
  replaced: whatever case of the \<^verbatim>\<open>select\<close> fires next, the entry of the tag is the same
  reader or gone. In every state the loop can reach, when a reader arrives for a tag that
  has no parked observer and already has a parked reader, the new reader is closed,
  "duplicate writer" is logged and nothing else changes: the readers map is as it was.
  (A parked reader excludes an observers entry for its tag in every reachable state, so
  the source's test \<^verbatim>\<open>!ok\<close> on the observers map is the claim's "no observer parked".)
\<close>

theorem duplicate_reader_is_closed:
  assumes "parked_observers (Broker_run evs) t = {}"
    and "readers (Broker_run evs) t = Some old"
    and "\<not> returned (Broker_run evs)"
  shows "run_step (Broker_run evs) (FromReaderChan (TaggedReader t new), e) =
           (Broker_run evs)\<lparr>closed_readers := closed_readers (Broker_run evs) @ [new],
                            logged := logged (Broker_run evs) @ [''duplicate writer, close current writer'']\<rparr>
       \<and> readers (run_step (Broker_run evs) (FromReaderChan (TaggedReader t new), e)) = readers (Broker_run evs)
       \<and> (\<forall>ev. readers (run_step (Broker_run evs) ev) t = Some old \<or>
               readers (run_step (Broker_run evs) ev) t = None)"
proof -
  from Broker_run_inv[OF assms(2)] have "observers (Broker_run evs) t = None" .
  with assms(2,3) have 1: "run_step (Broker_run evs) (FromReaderChan (TaggedReader t new), e) =
           (Broker_run evs)\<lparr>closed_readers := closed_readers (Broker_run evs) @ [new],
                            logged := logged (Broker_run evs) @ [''duplicate writer, close current writer'']\<rparr>"
    by (simp add: run_step_def reader_arrives_def)
  from 1 run_step_keeps_reader[OF assms(2)] show ?thesis by simp
qed

theorem duplicate_reader_is_closed_witness:
  "closed_readers (run_step (Broker_run [(FromReaderChan (TaggedReader ''t'' (Reader 7)), quiet)])
       (FromReaderChan (TaggedReader ''t'' (Reader 8)), quiet)) = [Reader 8]
   \<and> readers (run_step (Broker_run [(FromReaderChan (TaggedReader ''t'' (Reader 7)), quiet)])
       (FromReaderChan (TaggedReader ''t'' (Reader 8)), quiet)) ''t'' = Some (Reader 7)"
proof -
  let ?evs = "[(FromReaderChan (TaggedReader ''t'' (Reader 7)), quiet)]"
  have b: "Broker_run ?evs = NewBroker\<lparr>readers := [''t'' \<mapsto> Reader 7]\<rparr>"
    by (simp add: Broker_run_def NewBroker_def run_step_def reader_arrives_def)
  have p: "parked_observers (Broker_run ?evs) ''t'' = {}"
    by (simp add: b parked_observers_def NewBroker_def)
  have r: "readers (Broker_run ?evs) ''t'' = Some (Reader 7)" by (simp add: b)
  have l: "\<not> returned (Broker_run ?evs)" by (simp add: b NewBroker_def)
  from duplicate_reader_is_closed[OF p r l, of "Reader 8" quiet] show ?thesis
    by (simp add: b NewBroker_def)
qed

lemma range_openers_sub:
  "range_openers e ks vv ws lg = (vv', ws', lg') \<Longrightarrow> vv' k = Some c \<Longrightarrow> vv k = Some c"
proof (induction ks arbitrary: vv ws)
  case Nil
  then show ?case by simp
next
  case (Cons a ks)
  show ?case
  proof (cases "vv a")
    case None
    with Cons.prems Cons.IH[of vv ws] show ?thesis by simp
  next
    case (Some opener)
    show ?thesis
    proof (cases "OpenUniStream e opener")
      case (Inl err)
      with Some Cons.prems show ?thesis by (auto split: if_splits)
    next
      case (Inr w)
      with Some Cons.prems have "range_openers e ks (vv(conn_ID opener := None)) (ws @ [w]) lg = (vv', ws', lg')"
        by simp
      from Cons.IH[OF this Cons.prems(2)] show ?thesis by (auto split: if_splits)
    qed
  qed
qed

lemma range_openers_empty:
  "range_openers e ks Map.empty ws lg = (Map.empty, ws, lg)"
  by (induction ks) simp_all

lemma range_openers_all:
  assumes "\<forall>k c. vv k = Some c \<longrightarrow> conn_ID c = k \<and> c \<notin> set (refuses e)"
  shows "\<exists>ws'. range_openers e ks vv ws lg = (vv |` (- set ks), ws', lg) \<and>
               set ws' = set ws \<union> UniStream ` {c. \<exists>k \<in> set ks. vv k = Some c}"
  using assms
proof (induction ks arbitrary: vv ws)
  case Nil
  then show ?case by simp
next
  case (Cons a ks)
  show ?case
  proof (cases "vv a")
    case None
    from Cons.IH[OF Cons.prems, of ws] obtain ws' where
      r: "range_openers e ks vv ws lg = (vv |` (- set ks), ws', lg)"
      and s: "set ws' = set ws \<union> UniStream ` {c. \<exists>k \<in> set ks. vv k = Some c}" by blast
    from None have m: "vv |` (- set (a # ks)) = vv |` (- set ks)"
      by (auto simp: restrict_map_def fun_eq_iff)
    from None have "{c. \<exists>k \<in> set (a # ks). vv k = Some c} = {c. \<exists>k \<in> set ks. vv k = Some c}"
      by auto
    with None r s m show ?thesis by simp
  next
    case (Some opener)
    with Cons.prems have id: "conn_ID opener = a" and ok: "opener \<notin> set (refuses e)" by auto
    let ?vv = "vv(a := None)"
    have p: "\<forall>k c. ?vv k = Some c \<longrightarrow> conn_ID c = k \<and> c \<notin> set (refuses e)"
      using Cons.prems by auto
    from Cons.IH[OF p, of "ws @ [UniStream opener]"] obtain ws' where
      r: "range_openers e ks ?vv (ws @ [UniStream opener]) lg = (?vv |` (- set ks), ws', lg)"
      and s: "set ws' = set (ws @ [UniStream opener]) \<union> UniStream ` {c. \<exists>k \<in> set ks. ?vv k = Some c}"
      by blast
    have m: "?vv |` (- set ks) = vv |` (- set (a # ks))"
      by (auto simp: restrict_map_def fun_eq_iff)
    define A where "A = {c. \<exists>k \<in> set ks. ?vv k = Some c}"
    define B where "B = {c. \<exists>k \<in> set (a # ks). vv k = Some c}"
    have "insert opener A = B"
    proof (intro set_eqI iffI)
      fix x assume "x \<in> insert opener A"
      then show "x \<in> B"
        using Some unfolding A_def B_def by (auto split: if_splits)
    next
      fix x assume "x \<in> B"
      then obtain k where k: "k \<in> set (a # ks)" "vv k = Some x" unfolding B_def by blast
      show "x \<in> insert opener A"
      proof (cases "k = a")
        case True
        with k Some show ?thesis by simp
      next
        case False
        with k have "k \<in> set ks" "?vv k = Some x" by auto
        then show ?thesis unfolding A_def by blast
      qed
    qed
    then have "UniStream ` B = insert (UniStream opener) (UniStream ` A)" by blast
    moreover from s have "set ws' = insert (UniStream opener) (set ws \<union> UniStream ` A)"
      unfolding A_def by simp
    ultimately have "set ws' = set ws \<union> UniStream ` B" by simp
    then have s2: "set ws' = set ws \<union> UniStream ` {c. \<exists>k \<in> set (a # ks). vv k = Some c}"
      unfolding B_def .
    from Some id ok r have "range_openers e (a # ks) vv ws lg = (?vv |` (- set ks), ws', lg)"
      by (simp add: OpenUniStream_def)
    with m s2 show ?thesis by metis
  qed
qed

text \<open>Invariant of the loop: an observer is stored under its own ID.\<close>

lemma run_step_ids:
  assumes "\<forall>t m k c. observers b t = Some m \<longrightarrow> m k = Some c \<longrightarrow> conn_ID c = k"
  shows "\<forall>t m k c. observers (run_step b ev) t = Some m \<longrightarrow> m k = Some c \<longrightarrow> conn_ID c = k"
proof (cases "returned b")
  case True
  with assms show ?thesis by (simp add: run_step_def)
next
  case False
  show ?thesis
  proof (cases "fst ev")
    case CtxDone
    with False assms show ?thesis by (simp add: run_step_def)
  next
    case (FromObserverChan ob)
    have "\<forall>t m k c. observers (observer_arrives (snd ev) ob b) t = Some m \<longrightarrow> m k = Some c \<longrightarrow> conn_ID c = k"
      using assms
      by (auto simp: observer_arrives_def split: option.splits sum.splits if_splits)
    with False FromObserverChan show ?thesis by (simp add: run_step_def)
  next
    case (FromReaderChan rd)
    have "\<forall>t m k c. observers (reader_arrives (snd ev) rd b) t = Some m \<longrightarrow> m k = Some c \<longrightarrow> conn_ID c = k"
      using assms
      by (auto simp: reader_arrives_def split: option.splits prod.splits if_splits
               dest!: range_openers_sub)
    with False FromReaderChan show ?thesis by (simp add: run_step_def)
  next
    case (FromReadEOFChan tag)
    with False assms show ?thesis by (simp add: run_step_def)
  qed
qed

lemma foldl_run_step_ids:
  assumes "\<forall>t m k c. observers b t = Some m \<longrightarrow> m k = Some c \<longrightarrow> conn_ID c = k"
  shows "\<forall>t m k c. observers (foldl run_step b evs) t = Some m \<longrightarrow> m k = Some c \<longrightarrow> conn_ID c = k"
  using assms
proof (induction evs arbitrary: b)
  case Nil
  then show ?case by simp
next
  case (Cons ev evs)
  from Cons.IH[OF run_step_ids[OF Cons.prems]] show ?case by simp
qed

lemma Broker_run_ids:
  "observers (Broker_run evs) t = Some m \<Longrightarrow> m k = Some c \<Longrightarrow> conn_ID c = k"
  using foldl_run_step_ids[of NewBroker evs] by (auto simp: Broker_run_def NewBroker_def)

text \<open>
  C2 (as amended). In every state the loop can reach, when a reader arrives for a tag
  with parked observers and every \<^verbatim>\<open>OpenUniStream\<close> succeeds, a stream is opened to each
  parked observer and each one is removed: the copy task gets exactly the writers of the
  parked observers, the tag's entry stays in the observers map as an empty map, and a
  second reader for the tag finds no observer (its copy task gets no writer). The
  hypothesis on \<open>order\<close> says that \<^verbatim>\<open>range\<close> visits every key of the map, in any order.
\<close>

theorem reader_matches_every_observer:
  assumes obs: "observers (Broker_run evs) t = Some vv"
    and live: "\<not> returned (Broker_run evs)"
    and visits: "dom vv \<subseteq> set (order e)"
    and opens: "\<forall>c \<in> ran vv. c \<notin> set (refuses e)"
  shows "parked_observers (run_step (Broker_run evs) (FromReaderChan (TaggedReader t r), e)) t = {}
     \<and> observers (run_step (Broker_run evs) (FromReaderChan (TaggedReader t r), e)) t = Some Map.empty
     \<and> (\<exists>ws. copying (run_step (Broker_run evs) (FromReaderChan (TaggedReader t r), e)) =
               copying (Broker_run evs) @ [(t, ws, r)] \<and> set ws = UniStream ` ran vv)
     \<and> (\<forall>e2 r2.
          copying (run_step (run_step (Broker_run evs) (FromReaderChan (TaggedReader t r), e))
                     (FromReaderChan (TaggedReader t r2), e2)) =
          copying (run_step (Broker_run evs) (FromReaderChan (TaggedReader t r), e)) @ [(t, [], r2)])"
proof -
  let ?b = "Broker_run evs"
  let ?b' = "run_step ?b (FromReaderChan (TaggedReader t r), e)"
  have p: "\<forall>k c. vv k = Some c \<longrightarrow> conn_ID c = k \<and> c \<notin> set (refuses e)"
    using Broker_run_ids[OF obs] opens by (auto simp: ran_def)
  from range_openers_all[OF p, of "order e" "[]" "logged ?b"] obtain ws where
    r: "range_openers e (order e) vv [] (logged ?b) = (vv |` (- set (order e)), ws, logged ?b)"
    and s: "set ws = UniStream ` {c. \<exists>k \<in> set (order e). vv k = Some c}" by auto
  from visits have e: "vv |` (- set (order e)) = Map.empty"
    by (auto simp: restrict_map_def fun_eq_iff domIff)
  from visits have "{c. \<exists>k \<in> set (order e). vv k = Some c} = ran vv"
    by (auto simp: ran_def)
  with s have s': "set ws = UniStream ` ran vv" by simp
  from obs live r e have b': "?b' = ?b\<lparr>observers := (observers ?b)(t \<mapsto> Map.empty),
        logged := logged ?b, copying := copying ?b @ [(t, ws, r)]\<rparr>"
    by (simp add: run_step_def reader_arrives_def)
  have 1: "observers ?b' t = Some Map.empty" by (simp add: b')
  then have 0: "parked_observers ?b' t = {}" by (simp add: parked_observers_def)
  have 2: "\<exists>ws. copying ?b' = copying ?b @ [(t, ws, r)] \<and> set ws = UniStream ` ran vv"
    using s' by (simp add: b')
  have l: "\<not> returned ?b'" using live by (simp add: b')
  have 3: "copying (run_step ?b' (FromReaderChan (TaggedReader t r2), e2)) = copying ?b' @ [(t, [], r2)]"
    for e2 r2
    using 1 l by (simp add: run_step_def reader_arrives_def range_openers_empty)
  from 0 1 2 3 show ?thesis by blast
qed

theorem reader_matches_every_observer_witness:
  "parked_observers
     (run_step (Broker_run [(FromObserverChan (TaggedConnection ''t'' (Conn ''a'' 4)), quiet),
                            (FromObserverChan (TaggedConnection ''t'' (Conn ''b'' 5)), quiet)])
        (FromReaderChan (TaggedReader ''t'' (Reader 7)), \<lparr>refuses = [], order = [''b'', ''a'']\<rparr>)) ''t'' = {}
   \<and> (\<exists>ws. copying
     (run_step (Broker_run [(FromObserverChan (TaggedConnection ''t'' (Conn ''a'' 4)), quiet),
                            (FromObserverChan (TaggedConnection ''t'' (Conn ''b'' 5)), quiet)])
        (FromReaderChan (TaggedReader ''t'' (Reader 7)), \<lparr>refuses = [], order = [''b'', ''a'']\<rparr>))
       = [(''t'', ws, Reader 7)]
      \<and> set ws = {UniStream (Conn ''a'' 4), UniStream (Conn ''b'' 5)})"
proof -
  let ?evs = "[(FromObserverChan (TaggedConnection ''t'' (Conn ''a'' 4)), quiet),
               (FromObserverChan (TaggedConnection ''t'' (Conn ''b'' 5)), quiet)]"
  let ?vv = "[''a'' \<mapsto> Conn ''a'' 4, ''b'' \<mapsto> Conn ''b'' 5]"
  let ?e = "\<lparr>refuses = [], order = [''b'', ''a'']\<rparr>"
  have b: "Broker_run ?evs = NewBroker\<lparr>observers := [''t'' \<mapsto> ?vv]\<rparr>"
    by (simp add: Broker_run_def NewBroker_def run_step_def observer_arrives_def)
  have o: "observers (Broker_run ?evs) ''t'' = Some ?vv" unfolding b by simp
  have l: "\<not> returned (Broker_run ?evs)" unfolding b by (simp add: NewBroker_def)
  have cb: "copying (Broker_run ?evs) = []" unfolding b by (simp add: NewBroker_def)
  have d: "dom ?vv \<subseteq> set (order ?e)" by simp
  have n: "\<forall>c \<in> ran ?vv. c \<notin> set (refuses ?e)" by simp
  have "ran [''a'' \<mapsto> Conn ''a'' 4] = {Conn ''a'' 4}" by simp
  moreover have "[''a'' \<mapsto> Conn ''a'' 4] ''b'' = None" by simp
  ultimately have rn: "ran ?vv = {Conn ''b'' 5, Conn ''a'' 4}"
    by (simp only: ran_map_upd)
  note th = reader_matches_every_observer[OF o l d n, of "Reader 7"]
  note t1 = th[THEN conjunct1]
  note t3 = th[THEN conjunct2, THEN conjunct2, THEN conjunct1]
  from t3 obtain ws where w: "copying (run_step (Broker_run ?evs)
        (FromReaderChan (TaggedReader ''t'' (Reader 7)), ?e)) = copying (Broker_run ?evs) @ [(''t'', ws, Reader 7)]"
    and sw: "set ws = UniStream ` ran ?vv" by blast
  from sw have sw': "set ws = {UniStream (Conn ''a'' 4), UniStream (Conn ''b'' 5)}"
    unfolding rn by auto
  from w have w': "copying (run_step (Broker_run ?evs)
        (FromReaderChan (TaggedReader ''t'' (Reader 7)), ?e)) = [(''t'', ws, Reader 7)]"
    unfolding cb by simp
  from t1 w' sw' show ?thesis by blast
qed

text \<open>
  The claim as written fails when an \<^verbatim>\<open>OpenUniStream\<close> fails. With one observer
  parked and refusing, the observer is removed but no stream is opened to it. With
  observers \<open>a\<close> and \<open>b\<close> parked, \<open>a\<close> visited first and refusing, the loop breaks: no
  stream is opened and \<open>b\<close> is still parked afterwards.
\<close>

theorem failed_open_leaves_observers_counterexample:
  "copying
     (run_step (Broker_run [(FromObserverChan (TaggedConnection ''t'' (Conn ''a'' 4)), quiet)])
        (FromReaderChan (TaggedReader ''t'' (Reader 7)), \<lparr>refuses = [Conn ''a'' 4], order = [''a'']\<rparr>))
       = [(''t'', [], Reader 7)]
   \<and> Conn ''b'' 5 \<in> parked_observers
     (run_step (Broker_run [(FromObserverChan (TaggedConnection ''t'' (Conn ''a'' 4)), quiet),
                            (FromObserverChan (TaggedConnection ''t'' (Conn ''b'' 5)), quiet)])
        (FromReaderChan (TaggedReader ''t'' (Reader 7)),
         \<lparr>refuses = [Conn ''a'' 4], order = [''a'', ''b'']\<rparr>)) ''t''
   \<and> copying
     (run_step (Broker_run [(FromObserverChan (TaggedConnection ''t'' (Conn ''a'' 4)), quiet),
                            (FromObserverChan (TaggedConnection ''t'' (Conn ''b'' 5)), quiet)])
        (FromReaderChan (TaggedReader ''t'' (Reader 7)),
         \<lparr>refuses = [Conn ''a'' 4], order = [''a'', ''b'']\<rparr>))
       = [(''t'', [], Reader 7)]"
proof -
  let ?evs1 = "[(FromObserverChan (TaggedConnection ''t'' (Conn ''a'' 4)), quiet)]"
  have b1: "Broker_run ?evs1 = NewBroker\<lparr>observers := [''t'' \<mapsto> [''a'' \<mapsto> Conn ''a'' 4]]\<rparr>"
    by (simp add: Broker_run_def NewBroker_def run_step_def observer_arrives_def)
  have s1: "copying (run_step (Broker_run ?evs1) (FromReaderChan (TaggedReader ''t'' (Reader 7)),
         \<lparr>refuses = [Conn ''a'' 4], order = [''a'']\<rparr>)) = [(''t'', [], Reader 7)]"
    unfolding b1
    by (simp add: NewBroker_def run_step_def reader_arrives_def OpenUniStream_def)
  let ?evs = "[(FromObserverChan (TaggedConnection ''t'' (Conn ''a'' 4)), quiet),
               (FromObserverChan (TaggedConnection ''t'' (Conn ''b'' 5)), quiet)]"
  let ?vv = "[''a'' \<mapsto> Conn ''a'' 4, ''b'' \<mapsto> Conn ''b'' 5]"
  have b: "Broker_run ?evs = NewBroker\<lparr>observers := [''t'' \<mapsto> ?vv]\<rparr>"
    by (simp add: Broker_run_def NewBroker_def run_step_def observer_arrives_def)
  have s: "run_step (Broker_run ?evs) (FromReaderChan (TaggedReader ''t'' (Reader 7)),
         \<lparr>refuses = [Conn ''a'' 4], order = [''a'', ''b'']\<rparr>)
       = NewBroker\<lparr>observers := [''t'' \<mapsto> ?vv(''a'' := None)],
                   logged := [''failed to accept a uniStream''],
                   copying := [(''t'', [], Reader 7)]\<rparr>"
    unfolding b
    by (simp add: NewBroker_def run_step_def reader_arrives_def OpenUniStream_def)
  have "(?vv(''a'' := None)) ''b'' = Some (Conn ''b'' 5)" by simp
  then have "Conn ''b'' 5 \<in> ran (?vv(''a'' := None))" by (rule ranI)
  then have "Conn ''b'' 5 \<in> parked_observers
     (run_step (Broker_run ?evs) (FromReaderChan (TaggedReader ''t'' (Reader 7)),
         \<lparr>refuses = [Conn ''a'' 4], order = [''a'', ''b'']\<rparr>)) ''t''"
    unfolding s by (simp add: parked_observers_def)
  moreover have "copying (run_step (Broker_run ?evs) (FromReaderChan (TaggedReader ''t'' (Reader 7)),
         \<lparr>refuses = [Conn ''a'' 4], order = [''a'', ''b'']\<rparr>)) = [(''t'', [], Reader 7)]"
    unfolding s by simp
  ultimately show ?thesis using s1 by blast
qed

subsection \<open>Copy tasks\<close>

text \<open>
  What a copy task does to the maps, by the error \<^verbatim>\<open>io.Copy\<close> returns: on
  \<^verbatim>\<open>io.EOF\<close> the tag is sent and the supervisor deletes the reader's entry; on another
  error the maps stay as they are; and a copy that reaches the end of the stream returns
  no error at all.
\<close>

lemma readEOF_removes_reader:
  "\<not> returned b \<Longrightarrow>
     run_step b (FromReadEOFChan t, e) = b\<lparr>readers := (readers b)(t := None)\<rparr>"
  by (simp add: run_step_def)

lemma copyWithLog_on_EOF_error:
  assumes "io_Copy dst src 0 = Some (n, Some EOF)" and "\<not> returned b"
  shows "copyWithLog t dst src = Some ([t], [''writing to all observers has been completed.''])"
    and "readers (after_copy b (copyWithLog t dst src)) = (readers b)(t := None)"
    and "observers (after_copy b (copyWithLog t dst src)) = observers b"
  using assms by (simp_all add: copyWithLog_def after_copy_def run_step_def)

lemma copyWithLog_on_other_error:
  assumes "io_Copy dst src 0 = Some (n, Some err)" and "err \<noteq> EOF"
  shows "copyWithLog t dst src = Some ([], [''failed to write a uniStream''])"
    and "readers (after_copy b (copyWithLog t dst src)) = readers b"
    and "observers (after_copy b (copyWithLog t dst src)) = observers b"
  using assms by (simp_all add: copyWithLog_def after_copy_def)

lemma copy_reaching_end_of_stream_returns_nil:
  "io_Copy write_all (map (\<lambda>p. (p, None)) chunks @ [([], Some EOF)]) n =
     Some (n + int (length (concat chunks)), None)"
proof (induction chunks arbitrary: n)
  case Nil
  then show ?case by simp
next
  case (Cons p chunks)
  show ?case
  proof (cases "p = []")
    case True
    with Cons.IH[of n] show ?thesis by simp
  next
    case False
    with Cons.IH[of "n + int (length p)"] show ?thesis
      by (simp add: write_all_def Let_def)
  qed
qed

lemma copyWithLog_at_end_of_stream:
  "copyWithLog t write_all (map (\<lambda>p. (p, None)) chunks @ [([], Some EOF)]) = Some ([], [])"
  by (simp add: copyWithLog_def copy_reaching_end_of_stream_returns_nil)

lemma io_Copy_EOF_only_from_dst:
  "io_Copy dst src n = Some (m, Some EOF) \<Longrightarrow> \<exists>p \<in> fst ` set src. snd (dst p) = Some EOF"
proof (induction src arbitrary: n)
  case Nil
  then show ?case by simp
next
  case (Cons a src)
  obtain p er where a: "a = (p, er)" by (cases a)
  obtain nw0 ew0 where d: "dst p = (nw0, ew0)" by (cases "dst p")
  show ?case
  proof (cases "ew0 = Some EOF")
    case True
    with a d show ?thesis by force
  next
    case False
    with Cons.prems a d have "\<exists>n'. io_Copy dst src n' = Some (m, Some EOF)"
      by (auto simp: Let_def errInvalidWrite_def ErrShortWrite_def split: if_splits option.splits)
    with Cons.IH show ?thesis by auto
  qed
qed

lemma copyWithLog_sends_only_on_dst_EOF:
  "copyWithLog tag dst src = Some (sent, msgs) \<Longrightarrow> sent \<noteq> [] \<Longrightarrow>
     \<exists>p \<in> fst ` set src. snd (dst p) = Some EOF"
  by (auto simp: copyWithLog_def split: option.splits if_splits dest!: io_Copy_EOF_only_from_dst)

text \<open>
  C4 (the code at the failing input). A reader is parked for tag \<open>t\<close>, an observer
  arrives and is matched, and the copy task reads three bytes and then the end of the
  stream. \<^verbatim>\<open>io.Copy\<close> returns nil there, so \<^verbatim>\<open>copyWithLog\<close> sends nothing on
  \<^verbatim>\<open>readEOFChan\<close> and the supervisor keeps the reader parked.
\<close>

theorem copy_to_end_of_stream_keeps_reader:
  "copying (Broker_run [(FromReaderChan (TaggedReader ''t'' (Reader 7)), quiet),
                        (FromObserverChan (TaggedConnection ''t'' (Conn ''a'' 4)), quiet)])
     = [(''t'', [UniStream (Conn ''a'' 4)], Reader 7)]
   \<and> io_Copy write_all [([1, 2, 3], None), ([], Some EOF)] 0 = Some (3, None)
   \<and> copyWithLog ''t'' write_all [([1, 2, 3], None), ([], Some EOF)] = Some ([], [])
   \<and> readers (after_copy
        (Broker_run [(FromReaderChan (TaggedReader ''t'' (Reader 7)), quiet),
                     (FromObserverChan (TaggedConnection ''t'' (Conn ''a'' 4)), quiet)])
        (copyWithLog ''t'' write_all [([1, 2, 3], None), ([], Some EOF)])) ''t''
     = Some (Reader 7)"
proof -
  have c: "io_Copy write_all [([1, 2, 3], None), ([], Some EOF)] 0 = Some (3, None)"
    by (simp add: write_all_def Let_def)
  then have l: "copyWithLog ''t'' write_all [([1, 2, 3], None), ([], Some EOF)] = Some ([], [])"
    by (simp add: copyWithLog_def)
  have b: "Broker_run [(FromReaderChan (TaggedReader ''t'' (Reader 7)), quiet),
                        (FromObserverChan (TaggedConnection ''t'' (Conn ''a'' 4)), quiet)]
      = NewBroker\<lparr>readers := [''t'' \<mapsto> Reader 7],
                  copying := [(''t'', [UniStream (Conn ''a'' 4)], Reader 7)]\<rparr>"
    by (simp add: Broker_run_def NewBroker_def run_step_def reader_arrives_def
        observer_arrives_def OpenUniStream_def quiet_def)
  show ?thesis
    unfolding l c unfolding b by (simp add: after_copy_def NewBroker_def)
qed

section \<open>Properties of the stream frame codec\<close>

lemma scast_32_64_not_2_31: "(scast (w :: 32 word) :: 64 word) \<noteq> 0x80000000"
proof
  assume a: "(scast w :: 64 word) = 0x80000000"
  have "sint (scast w :: 64 word) = sint w"
    by (simp add: sint_up_scast is_up)
  with a have "sint w = sint (0x80000000 :: 64 word)" by simp
  then have "sint w = 2147483648" by simp
  moreover have "sint w < 2 ^ 31" using sint_lt[of w] by simp
  ultimately show False by simp
qed

lemma decode_id_ChunkSize: "ChunkSize (snd (decode_id y pk f)) = ChunkSize f"
  by (simp add: decode_id_def split: option.splits sum.splits)

lemma decode_stream_id_ChunkSize: "ChunkSize (snd (decode_stream_id y pk f)) = ChunkSize f"
  by (simp add: decode_stream_id_def split: option.splits sum.splits)

lemma decode_chunk_size_ChunkSize:
  "ChunkSize (snd (decode_chunk_size y pk f)) = ChunkSize f \<or>
   (\<exists>w :: 32 word. ChunkSize (snd (decode_chunk_size y pk f)) = scast w)"
  by (auto simp: decode_chunk_size_def split: option.splits sum.splits)

lemma decodeStreamFrame_ChunkSize:
  "ChunkSize (snd (decodeStreamFrame y data f)) = ChunkSize f \<or>
   (\<exists>w :: 32 word. ChunkSize (snd (decodeStreamFrame y data f)) = scast w)"
proof (cases "DecodeToNodePacket y data")
  case (Inl err)
  then show ?thesis by (simp add: decodeStreamFrame_def)
next
  case (Inr pk)
  obtain e1 f1 where 1: "decode_id y pk f = (e1, f1)" by (cases "decode_id y pk f")
  obtain e2 f2 where 2: "decode_stream_id y pk f1 = (e2, f2)" by (cases "decode_stream_id y pk f1")
  from 1 decode_id_ChunkSize[of y pk f] have c1: "ChunkSize f1 = ChunkSize f" by simp
  from 2 decode_stream_id_ChunkSize[of y pk f1] have c2: "ChunkSize f2 = ChunkSize f1" by simp
  show ?thesis
  proof (cases e1)
    case (Some err)
    with Inr 1 c1 show ?thesis by (simp add: decodeStreamFrame_def)
  next
    case None
    note n1 = this
    show ?thesis
    proof (cases e2)
      case (Some err)
      with Inr 1 2 n1 c1 c2 show ?thesis by (simp add: decodeStreamFrame_def)
    next
      case None
      with Inr 1 2 n1 have "decodeStreamFrame y data f = decode_chunk_size y pk f2"
        by (simp add: decodeStreamFrame_def)
      with decode_chunk_size_ChunkSize[of y pk f2] c1 c2 show ?thesis by simp
    qed
  qed
qed

text \<open>
  C7 (the code at the failing input). A stream frame whose \<^verbatim>\<open>ChunkSize\<close> is
  \<open>2^31\<close> does not come back from \<^verbatim>\<open>decodeStreamFrame\<close> after
  \<^verbatim>\<open>encodeStreamFrame\<close>, whatever its other fields, the type byte and the Y3 library
  are: the decoder reads the chunk size with \<^verbatim>\<open>ToInt32\<close> and converts that
  \<^verbatim>\<open>int32\<close> to \<^verbatim>\<open>uint\<close>, and no \<^verbatim>\<open>int32\<close> converts to \<open>2^31\<close>.
\<close>

theorem StreamFrame_roundtrip_loses_ChunkSize:
  "snd (decodeStreamFrame y
          (encodeStreamFrame y ty \<lparr>ID = i, StreamID = s, ChunkSize = 0x80000000\<rparr>)
          new_StreamFrame)
   \<noteq> \<lparr>ID = i, StreamID = s, ChunkSize = 0x80000000\<rparr>"
proof
  let ?d = "encodeStreamFrame y ty \<lparr>ID = i, StreamID = s, ChunkSize = 0x80000000\<rparr>"
  assume "snd (decodeStreamFrame y ?d new_StreamFrame) = \<lparr>ID = i, StreamID = s, ChunkSize = 0x80000000\<rparr>"
  then have c: "ChunkSize (snd (decodeStreamFrame y ?d new_StreamFrame)) = 0x80000000" by simp
  from decodeStreamFrame_ChunkSize[of y ?d new_StreamFrame]
  show False
  proof
    assume "ChunkSize (snd (decodeStreamFrame y ?d new_StreamFrame)) = ChunkSize new_StreamFrame"
    with c show False by (simp add: new_StreamFrame_def)
  next
    assume "\<exists>w :: 32 word. ChunkSize (snd (decodeStreamFrame y ?d new_StreamFrame)) = scast w"
    with c scast_32_64_not_2_31 show False by metis
  qed
qed

text \<open>
  With the library instance: an ordinary frame comes back as it was, and at chunk size
  \<open>2^31\<close> the decoder yields \<open>2^64 - 2^31\<close>.
\<close>

lemma y3_roundtrip_example:
  "decodeStreamFrame y3
     (encodeStreamFrame y3 0x3B \<lparr>ID = ''ab'', StreamID = 5, ChunkSize = 1024\<rparr>) new_StreamFrame
   = (None, \<lparr>ID = ''ab'', StreamID = 5, ChunkSize = 1024\<rparr>)"
  by code_simp

lemma y3_wire_example:
  "encodeStreamFrame y3 0x3B \<lparr>ID = ''ab'', StreamID = 5, ChunkSize = 0x80000000\<rparr>
   = [0xBB, 0x0D, 1, 2, 0x61, 0x62, 2, 1, 5, 3, 4, 0x80, 0, 0, 0]"
  by code_simp

lemma y3_ChunkSize_sign_extended:
  "decodeStreamFrame y3
     (encodeStreamFrame y3 0x3B \<lparr>ID = ''ab'', StreamID = 5, ChunkSize = 0x80000000\<rparr>) new_StreamFrame
   = (None, \<lparr>ID = ''ab'', StreamID = 5, ChunkSize = 0xFFFFFFFF80000000\<rparr>)"
  by code_simp

end
